theory Spec2Isabelle
  imports Complex_Main
begin

section \<open>JavaScript numbers\<close>

text \<open>
  The handlers of \<^verbatim>\<open>static/live2d-interaction.js\<close> compute on JavaScript numbers, which are
  IEEE 754 doubles. A number is modelled as a real, one of the two infinities, or NaN, and
  every arithmetic operation rounds its exact result to a double as the language does: to
  the nearest double, a tie to the one with the even significand, and to an infinity from
  \<open>2 ^ 1024\<close> on. The doubles are the multiples \<open>m * 2 ^ e\<close> of a power of two with
  \<open>\<bar>m\<bar> < 2 ^ 53\<close> and \<open>- 1074 \<le> e\<close>; the spacing of the doubles around \<open>x\<close> is
  \<open>2 ^ ulp_exponent x\<close>. Zero carries no sign: the only divisor of the file that can be
  zero is a result of \<^verbatim>\<open>Math.sqrt\<close>, which is never \<^verbatim>\<open>-0\<close> for a sum of squares. A field that
  is absent reads as \<^verbatim>\<open>undefined\<close>; the file only passes such a value to
  \<^verbatim>\<open>Number.isFinite\<close>, to arithmetic and to comparisons, where it behaves as NaN does, so
  it is modelled as NaN. The two distances of the file (\<open>getTouchDistance\<close> and
  \<open>pointer_distance\<close>, each a \<^verbatim>\<open>Math.sqrt\<close> of a sum of squares of finite coordinates) are
  computed on the reals.
\<close>

datatype jsnum = Num real | PosInf | NegInf | NaN

fun isFinite :: "jsnum \<Rightarrow> bool" where
  "isFinite (Num _) = True"
| "isFinite _ = False"

text \<open>Rounding to the nearest integer, a tie to the even one.\<close>

definition round_half_even :: "real \<Rightarrow> int" where
  "round_half_even t =
     (let f = \<lfloor>t\<rfloor>; d = t - of_int f
      in if d < 1 / 2 then f else if 1 / 2 < d then f + 1 else if even f then f else f + 1)"

text \<open>
  The exponent of the spacing of the doubles around \<open>x\<close>: 52 below the exponent of \<open>x\<close>
  for a normal \<open>x\<close>, and \<open>- 1074\<close> in the subnormal range.
\<close>

definition ulp_exponent :: "real \<Rightarrow> int" where
  "ulp_exponent x = max (\<lfloor>log 2 \<bar>x\<bar>\<rfloor> - 52) (- 1074)"

definition nearest :: "real \<Rightarrow> real" where
  "nearest x = of_int (round_half_even (x / 2 powi ulp_exponent x)) * 2 powi ulp_exponent x"

definition round_double :: "real \<Rightarrow> jsnum" where
  "round_double x =
     (if x = 0 then Num 0
      else if 2 ^ 1024 \<le> nearest x then PosInf
      else if nearest x \<le> - (2 ^ 1024) then NegInf
      else Num (nearest x))"

text \<open>A real is a double when rounding leaves it as it is.\<close>

definition is_double :: "real \<Rightarrow> bool" where
  "is_double r = (round_double r = Num r)"

text \<open>A numeric literal of the source denotes the double nearest to it.\<close>

definition js_literal :: "real \<Rightarrow> jsnum" where
  "js_literal x = round_double x"

fun js_neg :: "jsnum \<Rightarrow> jsnum" where
  "js_neg (Num a) = Num (- a)"
| "js_neg PosInf = NegInf"
| "js_neg NegInf = PosInf"
| "js_neg NaN = NaN"

fun js_add :: "jsnum \<Rightarrow> jsnum \<Rightarrow> jsnum" where
  "js_add (Num a) (Num b) = round_double (a + b)"
| "js_add NaN _ = NaN"
| "js_add _ NaN = NaN"
| "js_add PosInf NegInf = NaN"
| "js_add NegInf PosInf = NaN"
| "js_add PosInf _ = PosInf"
| "js_add _ PosInf = PosInf"
| "js_add NegInf _ = NegInf"
| "js_add _ NegInf = NegInf"

definition js_sub :: "jsnum \<Rightarrow> jsnum \<Rightarrow> jsnum" where
  "js_sub a b = js_add a (js_neg b)"

fun js_mul :: "jsnum \<Rightarrow> jsnum \<Rightarrow> jsnum" where
  "js_mul (Num a) (Num b) = round_double (a * b)"
| "js_mul NaN _ = NaN"
| "js_mul _ NaN = NaN"
| "js_mul (Num a) PosInf = (if a = 0 then NaN else if 0 < a then PosInf else NegInf)"
| "js_mul (Num a) NegInf = (if a = 0 then NaN else if 0 < a then NegInf else PosInf)"
| "js_mul PosInf (Num b) = (if b = 0 then NaN else if 0 < b then PosInf else NegInf)"
| "js_mul NegInf (Num b) = (if b = 0 then NaN else if 0 < b then NegInf else PosInf)"
| "js_mul PosInf PosInf = PosInf"
| "js_mul PosInf NegInf = NegInf"
| "js_mul NegInf PosInf = NegInf"
| "js_mul NegInf NegInf = PosInf"

fun js_div :: "jsnum \<Rightarrow> jsnum \<Rightarrow> jsnum" where
  "js_div (Num a) (Num b) =
     (if b = 0 then (if a = 0 then NaN else if 0 < a then PosInf else NegInf)
      else round_double (a / b))"
| "js_div NaN _ = NaN"
| "js_div _ NaN = NaN"
| "js_div (Num a) PosInf = Num 0"
| "js_div (Num a) NegInf = Num 0"
| "js_div PosInf (Num b) = (if 0 \<le> b then PosInf else NegInf)"
| "js_div NegInf (Num b) = (if 0 \<le> b then NegInf else PosInf)"
| "js_div PosInf PosInf = NaN"
| "js_div PosInf NegInf = NaN"
| "js_div NegInf PosInf = NaN"
| "js_div NegInf NegInf = NaN"

text \<open>\<^verbatim>\<open>a < b\<close>: false as soon as one side is NaN.\<close>

fun js_lt :: "jsnum \<Rightarrow> jsnum \<Rightarrow> bool" where
  "js_lt (Num a) (Num b) = (a < b)"
| "js_lt NaN _ = False"
| "js_lt _ NaN = False"
| "js_lt _ NegInf = False"
| "js_lt PosInf _ = False"
| "js_lt NegInf _ = True"
| "js_lt _ PosInf = True"

text \<open>\<^verbatim>\<open>a >= b\<close>: false as soon as one side is NaN, and the negation of \<^verbatim>\<open>a < b\<close> otherwise.\<close>

definition js_ge :: "jsnum \<Rightarrow> jsnum \<Rightarrow> bool" where
  "js_ge a b = (a \<noteq> NaN \<and> b \<noteq> NaN \<and> \<not> js_lt a b)"

text \<open>\<^verbatim>\<open>Math.max\<close> and \<^verbatim>\<open>Math.min\<close> of two arguments: NaN as soon as one argument is NaN.\<close>

definition Math_max :: "jsnum \<Rightarrow> jsnum \<Rightarrow> jsnum" where
  "Math_max a b = (if a = NaN \<or> b = NaN then NaN else if js_lt a b then b else a)"

definition Math_min :: "jsnum \<Rightarrow> jsnum \<Rightarrow> jsnum" where
  "Math_min a b = (if a = NaN \<or> b = NaN then NaN else if js_lt b a then b else a)"

section \<open>The renderer's model, the DOM and the host\<close>

text \<open>
  The renderer's model object: its origin \<^verbatim>\<open>x\<close>, \<^verbatim>\<open>y\<close>, its \<^verbatim>\<open>scale.x\<close>, \<^verbatim>\<open>scale.y\<close>, its
  \<^verbatim>\<open>anchor.x\<close>, \<^verbatim>\<open>anchor.y\<close> and its \<^verbatim>\<open>width\<close>, \<^verbatim>\<open>height\<close>.
\<close>

record model =
  model_x :: jsnum
  model_y :: jsnum
  model_scale_x :: jsnum
  model_scale_y :: jsnum
  model_anchor_x :: jsnum
  model_anchor_y :: jsnum
  model_width :: jsnum
  model_height :: jsnum

text \<open>\<^verbatim>\<open>model.scale.set(v)\<close> with one argument writes both axes.\<close>

definition scale_set :: "jsnum \<Rightarrow> model \<Rightarrow> model" where
  "scale_set v m = m\<lparr>model_scale_x := v, model_scale_y := v\<rparr>"

text \<open>The rectangle \<^verbatim>\<open>model.getBounds()\<close> returns, in window coordinates.\<close>

record bounds =
  bounds_left :: real
  bounds_right :: real
  bounds_top :: real
  bounds_bottom :: real

text \<open>
  A button or a button's wrapper element: its \<^verbatim>\<open>style.pointerEvents\<close> (the empty string
  when unset) and its \<^verbatim>\<open>data-prev-pointer-events\<close> attribute, if it has one.
\<close>

record element =
  pointerEvents :: string
  data_prev_pointer_events :: "string option"

text \<open>A call of the host or of a collaborator either throws (or rejects) or returns.\<close>

datatype 'a outcome = Throws | Returns 'a

text \<open>
  What the multi-monitor host API hands back: a display of \<^verbatim>\<open>getAllDisplays\<close>, the object of
  \<^verbatim>\<open>getCurrentDisplay\<close> (its \<^verbatim>\<open>bounds\<close> may be absent), and the result of
  \<^verbatim>\<open>moveWindowToDisplay\<close>.
\<close>

record display =
  display_id :: nat
  display_screenX :: jsnum
  display_screenY :: jsnum
  display_width :: jsnum
  display_height :: jsnum

record current_display =
  cur_screenX :: jsnum
  cur_screenY :: jsnum
  cur_bounds :: "(jsnum \<times> jsnum) option"

record move_result =
  move_success :: bool
  move_sameDisplay :: bool

text \<open>
  \<^verbatim>\<open>window.electronScreen\<close>. The host is outside the program, so each of its answers is a
  function of the number of host calls made before it: two calls of one gesture may be
  answered differently. \<^verbatim>\<open>null\<close> is \<open>None\<close>. Each method may be missing from the object
  (\<open>has_getAllDisplays\<close>, \<open>has_getCurrentDisplay\<close>, \<open>has_moveWindowToDisplay\<close>); calling a
  missing method throws a TypeError before the host is reached.
\<close>

record electronScreen =
  has_getAllDisplays :: bool
  has_getCurrentDisplay :: bool
  has_moveWindowToDisplay :: bool
  getAllDisplays :: "nat \<Rightarrow> display list option outcome"
  getCurrentDisplay :: "nat \<Rightarrow> current_display option outcome"
  moveWindowToDisplay :: "nat \<Rightarrow> jsnum \<Rightarrow> jsnum \<Rightarrow> move_result option outcome"

record env =
  electronScreen :: "electronScreen option"
  innerWidth :: real
  innerHeight :: real
  getBounds :: "model \<Rightarrow> bounds outcome"

text \<open>The calls a handler makes, in the order it makes them.\<close>

datatype call =
    CheckAndSwitchDisplay
  | SavePositionAfterInteraction
  | GetAllDisplays
  | GetCurrentDisplay
  | MoveWindowToDisplay jsnum jsnum
  | SaveUserPreferences string "jsnum \<times> jsnum" "jsnum \<times> jsnum" "(jsnum \<times> jsnum) option"

text \<open>
  The state the handlers share: the fields of the manager (\<^verbatim>\<open>this\<close>), the locals of the
  closures of \<^verbatim>\<open>setupDragAndDrop\<close> and \<^verbatim>\<open>setupTouchZoom\<close>, the DOM they write, the host's
  pending timeouts and clock (milliseconds), and the calls made so far.
  \<^verbatim>\<open>this.currentModel\<close> is the model the handlers were set up for, or null
  (\<open>hasCurrentModel\<close>). A pending timeout is its id and the time it falls due; the only
  timeouts of the model are those of \<^verbatim>\<open>_debouncedSavePosition\<close>, kept in the order they
  were set, which is the order they fall due in (each is set 500 ms ahead).
\<close>

record state =
  isLocked :: bool
  isFocusing :: bool
  hasCurrentModel :: bool
  the_model :: model
  lastLoadedModelPath :: "string option"
  savePositionDebounceTimer :: "nat option"
  isDragging :: bool
  dragStartPos :: "jsnum \<times> jsnum"
  initialDistance :: real
  initialScale :: jsnum
  isTouchZooming :: bool
  canvas_cursor :: string
  elements :: "element list"
  timeouts :: "(nat \<times> nat) list"
  last_timeout_id :: nat
  clock :: nat
  host_calls :: nat
  calls :: "call list"

definition record_call :: "call \<Rightarrow> state \<Rightarrow> state" where
  "record_call c s = s\<lparr>calls := calls s @ [c]\<rparr>"

definition host_call :: "call \<Rightarrow> state \<Rightarrow> state" where
  "host_call c s = (record_call c s)\<lparr>host_calls := Suc (host_calls s)\<rparr>"

section \<open>Persistence: \<^verbatim>\<open>_savePositionAfterInteraction\<close> and \<^verbatim>\<open>_debouncedSavePosition\<close>\<close>

text \<open>A string is truthy when it is present and not empty.\<close>

definition truthy_string :: "string option \<Rightarrow> bool" where
  "truthy_string p = (case p of None \<Rightarrow> False | Some str \<Rightarrow> str \<noteq> [])"

text \<open>
  The display origin \<^verbatim>\<open>_savePositionAfterInteraction\<close> derives from a non-null answer of
  \<^verbatim>\<open>getCurrentDisplay\<close>: \<^verbatim>\<open>screenX\<close>, \<^verbatim>\<open>screenY\<close> when both are finite, else the origin of
  \<^verbatim>\<open>bounds\<close> when that is present and finite, else nothing.
\<close>

definition displayInfo_of :: "current_display \<Rightarrow> (jsnum \<times> jsnum) option" where
  "displayInfo_of currentDisplay =
     (let screenX = cur_screenX currentDisplay;
          screenY = cur_screenY currentDisplay;
          (screenX, screenY) =
            (if \<not> isFinite screenX \<or> \<not> isFinite screenY then
               (case cur_bounds currentDisplay of
                  Some (bx, by) \<Rightarrow>
                    if isFinite bx \<and> isFinite by then (bx, by) else (screenX, screenY)
                | None \<Rightarrow> (screenX, screenY))
             else (screenX, screenY))
      in if isFinite screenX \<and> isFinite screenY then Some (screenX, screenY) else None)"

text \<open>
  \<^verbatim>\<open>_savePositionAfterInteraction\<close>. The call of the storage collaborator
  \<^verbatim>\<open>saveUserPreferences\<close> is fire-and-forget: it returns a promise whose outcome is only
  logged, so the call is the last effect and the function itself never throws. A failure
  of \<^verbatim>\<open>getCurrentDisplay\<close> is caught and leaves the display origin null.
\<close>

definition savePositionAfterInteraction :: "env \<Rightarrow> state \<Rightarrow> state" where
  "savePositionAfterInteraction e s0 =
     (let s = record_call SavePositionAfterInteraction s0 in
      if \<not> hasCurrentModel s \<or> \<not> truthy_string (lastLoadedModelPath s) then s
      else
        let position = (model_x (the_model s), model_y (the_model s));
            scale = (model_scale_x (the_model s), model_scale_y (the_model s))
        in
        if \<not> isFinite (fst position) \<or> \<not> isFinite (snd position) \<or>
           \<not> isFinite (fst scale) \<or> \<not> isFinite (snd scale) then s
        else
          let (displayInfo, s1) =
                (case electronScreen e of
                   None \<Rightarrow> (None, s)
                 | Some es \<Rightarrow>
                     if \<not> has_getCurrentDisplay es then (None, s)
                     else
                       (case getCurrentDisplay es (host_calls s) of
                          Returns (Some currentDisplay) \<Rightarrow>
                            (displayInfo_of currentDisplay, host_call GetCurrentDisplay s)
                        | _ \<Rightarrow> (None, host_call GetCurrentDisplay s)))
          in
          (case lastLoadedModelPath s of
             None \<Rightarrow> s1
           | Some path \<Rightarrow> record_call (SaveUserPreferences path position scale displayInfo) s1))"

text \<open>\<^verbatim>\<open>clearTimeout\<close>: the timeout of that id, if still pending, is dropped.\<close>

definition clearTimeout :: "nat \<Rightarrow> state \<Rightarrow> state" where
  "clearTimeout t s = s\<lparr>timeouts := filter (\<lambda>(i, due). i \<noteq> t) (timeouts s)\<rparr>"

text \<open>
  \<^verbatim>\<open>_debouncedSavePosition\<close>: clear the timeout whose id the field holds (an id is a positive
  integer, so a held id is truthy), then set a new one 500 ms ahead and keep its id. The
  callback of the timeout is \<^verbatim>\<open>_savePositionAfterInteraction\<close>; \<open>advance\<close> runs it.
\<close>

definition debouncedSavePosition :: "state \<Rightarrow> state" where
  "debouncedSavePosition s =
     (let s1 = (case savePositionDebounceTimer s of
                  None \<Rightarrow> s
                | Some t \<Rightarrow> if t \<noteq> 0 then clearTimeout t s else s);
          t' = Suc (last_timeout_id s1)
      in s1\<lparr>timeouts := timeouts s1 @ [(t', clock s1 + 500)],
             last_timeout_id := t',
             savePositionDebounceTimer := Some t'\<rparr>)"

text \<open>
  The host's event loop between two input events: \<open>dt\<close> milliseconds pass, and every
  pending timeout that falls due in them runs its callback, at the time it falls due.
\<close>

definition advance :: "env \<Rightarrow> nat \<Rightarrow> state \<Rightarrow> state" where
  "advance e dt s =
     (let t = clock s + dt;
          due = filter (\<lambda>(i, d). d \<le> t) (timeouts s);
          s1 = s\<lparr>timeouts := filter (\<lambda>(i, d). \<not> d \<le> t) (timeouts s)\<rparr>
      in (fold (\<lambda>(i, d) st. savePositionAfterInteraction e (st\<lparr>clock := d\<rparr>)) due s1)
           \<lparr>clock := t\<rparr>)"

section \<open>Display relocation: \<^verbatim>\<open>_checkAndSwitchDisplay\<close>\<close>

text \<open>The test of the loop over the displays: the point lies in the display's rectangle.\<close>

definition display_contains :: "jsnum \<Rightarrow> jsnum \<Rightarrow> display \<Rightarrow> bool" where
  "display_contains modelScreenX modelScreenY d =
     (js_ge modelScreenX (display_screenX d) \<and>
      js_lt modelScreenX (js_add (display_screenX d) (display_width d)) \<and>
      js_ge modelScreenY (display_screenY d) \<and>
      js_lt modelScreenY (js_add (display_screenY d) (display_height d)))"

text \<open>
  The model after a successful switch (the assignments to \<^verbatim>\<open>model.x\<close> and \<^verbatim>\<open>model.y\<close>):
  the centre relative to the target display, moved from the centre to the anchor.
\<close>

definition reanchor :: "jsnum \<Rightarrow> jsnum \<Rightarrow> display \<Rightarrow> model \<Rightarrow> model" where
  "reanchor modelScreenX modelScreenY targetDisplay m =
     (let newModelX = js_sub modelScreenX (display_screenX targetDisplay);
          newModelY = js_sub modelScreenY (display_screenY targetDisplay);
          m1 = m\<lparr>model_x := js_add newModelX
                 (js_mul (js_mul (js_sub (model_anchor_x m) (js_literal 0.5)) (model_width m))
                    (model_scale_x m))\<rparr>
      in m1\<lparr>model_y := js_add newModelY
              (js_mul (js_mul (js_sub (model_anchor_y m1) (js_literal 0.5)) (model_height m1))
                 (model_scale_y m1))\<rparr>)"

text \<open>
  \<^verbatim>\<open>_checkAndSwitchDisplay\<close> returns whether a display switch occurred. Everything after the
  presence check runs in a \<^verbatim>\<open>try\<close> whose \<^verbatim>\<open>catch\<close> returns false. Only
  \<^verbatim>\<open>moveWindowToDisplay\<close> is checked for presence: where \<^verbatim>\<open>getAllDisplays\<close> or
  \<^verbatim>\<open>getCurrentDisplay\<close> is missing, the call throws and the function returns false. The loop
  over the displays stops at the first display that contains the model's centre (\<open>find\<close>).
\<close>

definition checkAndSwitchDisplay :: "env \<Rightarrow> state \<Rightarrow> bool \<times> state" where
  "checkAndSwitchDisplay e s0 =
     (let s = record_call CheckAndSwitchDisplay s0 in
      case electronScreen e of
        None \<Rightarrow> (False, s)
      | Some es \<Rightarrow>
          if \<not> has_moveWindowToDisplay es then (False, s)
          else
            (case getBounds e (the_model s) of
               Throws \<Rightarrow> (False, s)
             | Returns b \<Rightarrow>
                 let modelCenterX =
                       js_div (js_add (Num (bounds_left b)) (Num (bounds_right b)))
                         (js_literal 2);
                     modelCenterY =
                       js_div (js_add (Num (bounds_top b)) (Num (bounds_bottom b)))
                         (js_literal 2);
                     s1 = host_call GetAllDisplays s
                 in
                 if \<not> has_getAllDisplays es then (False, s)
                 else
                 (case getAllDisplays es (host_calls s) of
                    Throws \<Rightarrow> (False, s1)
                  | Returns None \<Rightarrow> (False, s1)
                  | Returns (Some displays) \<Rightarrow>
                      if length displays \<le> 1 then (False, s1)
                      else if js_ge modelCenterX (Num 0) \<and>
                              js_lt modelCenterX (Num (innerWidth e)) \<and>
                              js_ge modelCenterY (Num 0) \<and>
                              js_lt modelCenterY (Num (innerHeight e))
                      then (False, s1)
                      else if \<not> has_getCurrentDisplay es then (False, s1)
                      else
                        let s2 = host_call GetCurrentDisplay s1 in
                        (case getCurrentDisplay es (host_calls s1) of
                           Throws \<Rightarrow> (False, s2)
                         | Returns None \<Rightarrow> (False, s2)
                         | Returns (Some currentDisplay) \<Rightarrow>
                             let modelScreenX =
                                   js_add (cur_screenX currentDisplay) modelCenterX;
                                 modelScreenY =
                                   js_add (cur_screenY currentDisplay) modelCenterY
                             in
                             (case find (display_contains modelScreenX modelScreenY) displays of
                                None \<Rightarrow> (False, s2)
                              | Some targetDisplay \<Rightarrow>
                                  let s3 = host_call
                                        (MoveWindowToDisplay modelScreenX modelScreenY) s2
                                  in
                                  (case moveWindowToDisplay es (host_calls s2)
                                          modelScreenX modelScreenY of
                                     Returns (Some result) \<Rightarrow>
                                       if move_success result \<and> \<not> move_sameDisplay result
                                       then
                                         (True,
                                          savePositionAfterInteraction e
                                            (s3\<lparr>the_model :=
                                                 reanchor modelScreenX modelScreenY
                                                   targetDisplay (the_model s3)\<rparr>))
                                       else (False, s3)
                                   | _ \<Rightarrow> (False, s3)))))))"

section \<open>Drag: \<^verbatim>\<open>setupDragAndDrop\<close>\<close>

text \<open>
  \<open>elements\<close> holds the buttons and their wrapper elements, each once.
  \<^verbatim>\<open>enableButtonEventPropagation\<close> remembers each one's \<^verbatim>\<open>pointerEvents\<close> in its
  \<^verbatim>\<open>data-prev-pointer-events\<close> attribute and sets it to \<^verbatim>\<open>none\<close>;
  \<^verbatim>\<open>disableButtonEventPropagation\<close> restores every element that has the attribute and removes
  the attribute.
\<close>

definition enableButtonEventPropagation :: "element list \<Rightarrow> element list" where
  "enableButtonEventPropagation els =
     map (\<lambda>el. el\<lparr>data_prev_pointer_events := Some (pointerEvents el),
                   pointerEvents := ''none''\<rparr>) els"

definition disableButtonEventPropagation :: "element list \<Rightarrow> element list" where
  "disableButtonEventPropagation els =
     map (\<lambda>el. case data_prev_pointer_events el of
                  None \<Rightarrow> el
                | Some prevValue \<Rightarrow>
                    el\<lparr>pointerEvents := prevValue, data_prev_pointer_events := None\<rparr>) els"

text \<open>
  The \<^verbatim>\<open>pointerdown\<close> event of the model: the number of entries of
  \<^verbatim>\<open>event.data.originalEvent.touches\<close> (\<open>None\<close> when the original event or its \<^verbatim>\<open>touches\<close> is
  absent) and \<^verbatim>\<open>event.data.global\<close>. A \<^verbatim>\<open>pointermove\<close> event of the window: the number of
  entries of \<^verbatim>\<open>event.touches\<close> (\<open>None\<close> when absent) and \<^verbatim>\<open>clientX\<close>, \<^verbatim>\<open>clientY\<close>. Event
  coordinates are finite.
\<close>

record pointerdown_event =
  originalEvent_touches :: "nat option"
  global_x :: real
  global_y :: real

record pointermove_event =
  event_touches :: "nat option"
  clientX :: real
  clientY :: real

text \<open>\<^verbatim>\<open>touches && touches.length > 1\<close>.\<close>

definition multi_touch :: "nat option \<Rightarrow> bool" where
  "multi_touch t = (case t of None \<Rightarrow> False | Some n \<Rightarrow> 1 < n)"

text \<open>The handler of the model's \<^verbatim>\<open>pointerdown\<close>.\<close>

definition on_pointerdown :: "pointerdown_event \<Rightarrow> state \<Rightarrow> state" where
  "on_pointerdown event s =
     (if isLocked s then s
      else if multi_touch (originalEvent_touches event) then s
      else s\<lparr>isDragging := True,
              isFocusing := False,
              dragStartPos := (js_sub (Num (global_x event)) (model_x (the_model s)),
                               js_sub (Num (global_y event)) (model_y (the_model s))),
              canvas_cursor := ''grabbing'',
              elements := enableButtonEventPropagation (elements s)\<rparr>)"

text \<open>
  \<^verbatim>\<open>onDragEnd\<close>, the handler of the window's \<^verbatim>\<open>pointerup\<close> and \<^verbatim>\<open>pointercancel\<close>. It is an
  \<^verbatim>\<open>async\<close> function; the model runs it to its end in one step. The canvas element
  \<^verbatim>\<open>live2d-canvas\<close>, whose cursor the drag handlers write, is the one the model is drawn on
  and exists.
\<close>

definition onDragEnd :: "env \<Rightarrow> state \<Rightarrow> state" where
  "onDragEnd e s =
     (if isDragging s then
        let s1 = s\<lparr>isDragging := False,
                    canvas_cursor := ''grab'',
                    elements := disableButtonEventPropagation (elements s)\<rparr>;
            (displaySwitched, s2) = checkAndSwitchDisplay e s1
        in if \<not> displaySwitched then savePositionAfterInteraction e s2 else s2
      else s)"

text \<open>\<^verbatim>\<open>onDragMove\<close>, the handler of the window's \<^verbatim>\<open>pointermove\<close>.\<close>

definition onDragMove :: "pointermove_event \<Rightarrow> state \<Rightarrow> state" where
  "onDragMove event s =
     (if isDragging s then
        if multi_touch (event_touches event) then
          s\<lparr>isDragging := False, canvas_cursor := ''grab''\<rparr>
        else
          s\<lparr>the_model := (the_model s)
                \<lparr>model_x := js_sub (Num (clientX event)) (fst (dragStartPos s)),
                 model_y := js_sub (Num (clientY event)) (snd (dragStartPos s))\<rparr>\<rparr>
      else s)"

section \<open>Zoom: \<^verbatim>\<open>setupWheelZoom\<close> and \<^verbatim>\<open>setupTouchZoom\<close>\<close>

text \<open>
  \<^verbatim>\<open>onWheelScroll\<close>; its argument is the event's \<^verbatim>\<open>deltaY\<close>, a finite number. The
  \<^verbatim>\<open>preventDefault\<close> of the wheel and touch handlers acts on the event alone and is left out.
\<close>

definition onWheelScroll :: "real \<Rightarrow> state \<Rightarrow> state" where
  "onWheelScroll deltaY s =
     (if isLocked s \<or> \<not> hasCurrentModel s then s
      else
        let scaleFactor = js_literal 1.1;
            oldScale = model_scale_x (the_model s);
            newScale = (if deltaY < 0 then js_mul oldScale scaleFactor
                        else js_div oldScale scaleFactor)
        in debouncedSavePosition (s\<lparr>the_model := scale_set newScale (the_model s)\<rparr>))"

text \<open>A contact of a touch event; its coordinates are finite.\<close>

record touch =
  touch_clientX :: real
  touch_clientY :: real

definition getTouchDistance :: "touch \<Rightarrow> touch \<Rightarrow> real" where
  "getTouchDistance touch1 touch2 =
     (let dx = touch_clientX touch2 - touch_clientX touch1;
          dy = touch_clientY touch2 - touch_clientY touch1
      in sqrt (dx * dx + dy * dy))"

text \<open>The touch handlers; their argument is \<^verbatim>\<open>event.touches\<close>.\<close>

definition onTouchStart :: "touch list \<Rightarrow> state \<Rightarrow> state" where
  "onTouchStart touches s =
     (if isLocked s \<or> \<not> hasCurrentModel s then s
      else
        (case touches of
           [touch0, touch1] \<Rightarrow>
             s\<lparr>isTouchZooming := True,
               initialDistance := getTouchDistance touch0 touch1,
               initialScale := model_scale_x (the_model s)\<rparr>
         | _ \<Rightarrow> s))"

definition onTouchMove :: "touch list \<Rightarrow> state \<Rightarrow> state" where
  "onTouchMove touches s =
     (if isLocked s \<or> \<not> hasCurrentModel s \<or> \<not> isTouchZooming s then s
      else
        (case touches of
           [touch0, touch1] \<Rightarrow>
             let currentDistance = getTouchDistance touch0 touch1;
                 scaleChange = js_div (Num currentDistance) (Num (initialDistance s));
                 newScale = js_mul (initialScale s) scaleChange;
                 newScale = Math_max (js_literal 0.1) (Math_min (js_literal 2.0) newScale)
             in s\<lparr>the_model := scale_set newScale (the_model s)\<rparr>
         | _ \<Rightarrow> s))"

definition onTouchEnd :: "env \<Rightarrow> touch list \<Rightarrow> state \<Rightarrow> state" where
  "onTouchEnd e touches s =
     (if length touches < 2 then
        (if isTouchZooming s then savePositionAfterInteraction e s else s)
          \<lparr>isTouchZooming := False\<rparr>
      else s)"

section \<open>Proximity: the distance of \<^verbatim>\<open>onPointerMove\<close> in \<^verbatim>\<open>enableMouseTracking\<close>\<close>


section \<open>The event loop\<close>

text \<open>
  The state right after \<^verbatim>\<open>setupDragAndDrop\<close> and \<^verbatim>\<open>setupTouchZoom\<close> ran for a model: no
  gesture in progress, \<^verbatim>\<open>dragStartPos\<close> a fresh point, \<^verbatim>\<open>initialDistance = 0\<close>,
  \<^verbatim>\<open>initialScale = 1\<close>, the canvas's cursor style not yet written, no timeout pending.
\<close>

definition initial_state :: "model \<Rightarrow> string option \<Rightarrow> element list \<Rightarrow> state" where
  "initial_state m path els =
     \<lparr>isLocked = False, isFocusing = False, hasCurrentModel = True, the_model = m,
      lastLoadedModelPath = path, savePositionDebounceTimer = None,
      isDragging = False, dragStartPos = (Num 0, Num 0),
      initialDistance = 0, initialScale = Num 1, isTouchZooming = False,
      canvas_cursor = [], elements = els,
      timeouts = [], last_timeout_id = 0, clock = 0, host_calls = 0, calls = []\<rparr>"

text \<open>
  The input events the listeners are registered for, and the passing of time. A
  \<^verbatim>\<open>pointermove\<close> of the window also reaches \<^verbatim>\<open>onPointerMove\<close> of the mouse tracking, which
  writes none of the fields below but \<open>isFocusing\<close> and is left out of the state machine.
\<close>

datatype event =
    PointerDown pointerdown_event
  | PointerMove pointermove_event
  | PointerUp
  | WheelScroll real
  | TouchStart "touch list"
  | TouchMove "touch list"
  | TouchEnd "touch list"
  | Elapse nat

definition dispatch :: "env \<Rightarrow> event \<Rightarrow> state \<Rightarrow> state" where
  "dispatch e ev s =
     (case ev of
        PointerDown d \<Rightarrow> on_pointerdown d s
      | PointerMove m \<Rightarrow> onDragMove m s
      | PointerUp \<Rightarrow> onDragEnd e s
      | WheelScroll deltaY \<Rightarrow> onWheelScroll deltaY s
      | TouchStart ts \<Rightarrow> onTouchStart ts s
      | TouchMove ts \<Rightarrow> onTouchMove ts s
      | TouchEnd ts \<Rightarrow> onTouchEnd e ts s
      | Elapse dt \<Rightarrow> advance e dt s)"

definition run :: "env \<Rightarrow> event list \<Rightarrow> state \<Rightarrow> state" where
  "run e evs s = fold (dispatch e) evs s"

text \<open>
  A burst of wheel events: a first event with \<^verbatim>\<open>deltaY\<close> \<open>deltaY0\<close>, then for each pair
  \<open>(gap, deltaY)\<close> of \<open>later\<close> the host's loop for \<open>gap\<close> milliseconds and the next event.
\<close>

definition wheel_burst :: "env \<Rightarrow> real \<Rightarrow> (nat \<times> real) list \<Rightarrow> state \<Rightarrow> state" where
  "wheel_burst e deltaY0 later s =
     fold (\<lambda>(gap, deltaY) st. onWheelScroll deltaY (advance e gap st)) later
       (onWheelScroll deltaY0 s)"

section \<open>Notions the properties are stated with\<close>

text \<open>
  Every pending timeout is the one whose id \<^verbatim>\<open>_savePositionDebounceTimer\<close> holds. It holds
  initially (nothing is pending) and every event keeps it (\<open>single_slot_reachable\<close> below).
\<close>

definition single_slot :: "state \<Rightarrow> bool" where
  "single_slot s =
     (\<forall>(i, due) \<in> set (timeouts s). savePositionDebounceTimer s = Some i \<and> i \<noteq> 0)"

text \<open>The state right after a handled wheel event: exactly one timeout pending, 500 ms ahead.\<close>

definition armed :: "state \<Rightarrow> bool" where
  "armed s = (\<not> isLocked s \<and> hasCurrentModel s \<and>
     timeouts s = [(last_timeout_id s, clock s + 500)] \<and>
     savePositionDebounceTimer s = Some (last_timeout_id s) \<and> last_timeout_id s \<noteq> 0)"

text \<open>A positive scale: a positive double, or Infinity.\<close>

fun positive_scale :: "jsnum \<Rightarrow> bool" where
  "positive_scale (Num r) = (0 < r \<and> is_double r)"
| "positive_scale PosInf = True"
| "positive_scale _ = False"

definition is_storage_call :: "call \<Rightarrow> bool" where
  "is_storage_call c = (case c of SaveUserPreferences _ _ _ _ \<Rightarrow> True | _ \<Rightarrow> False)"

definition transform_finite :: "model \<Rightarrow> bool" where
  "transform_finite m = (isFinite (model_x m) \<and> isFinite (model_y m) \<and>
     isFinite (model_scale_x m) \<and> isFinite (model_scale_y m))"



section \<open>Concrete inputs\<close>

text \<open>
  A model, a state, events, and a host with two displays side by side, for the concrete
  instances the theorems below are applied to. The host reports the window on the first
  display for its first three calls and on the second one afterwards.
\<close>

definition sample_model :: model where
  "sample_model = \<lparr>model_x = Num 100, model_y = Num 200, model_scale_x = Num 1,
     model_scale_y = Num 1, model_anchor_x = Num 0.5, model_anchor_y = Num 0.5,
     model_width = Num 400, model_height = Num 600\<rparr>"

definition sample_state :: state where
  "sample_state = initial_state sample_model (Some ''model.json'') []"

definition sample_down :: pointerdown_event where
  "sample_down = \<lparr>originalEvent_touches = Some 1, global_x = 150, global_y = 260\<rparr>"

definition sample_move :: pointermove_event where
  "sample_move = \<lparr>event_touches = Some 1, clientX = 300, clientY = 400\<rparr>"

definition sample_far_move :: pointermove_event where
  "sample_far_move = \<lparr>event_touches = None, clientX = 2250, clientY = 460\<rparr>"

definition sample_interrupt :: pointermove_event where
  "sample_interrupt = \<lparr>event_touches = Some 2, clientX = 700, clientY = 50\<rparr>"

definition sample_touches :: "touch list" where
  "sample_touches = [\<lparr>touch_clientX = 300, touch_clientY = 400\<rparr>,
                     \<lparr>touch_clientX = 700, touch_clientY = 50\<rparr>]"

definition coincident_touch :: touch where
  "coincident_touch = \<lparr>touch_clientX = 10, touch_clientY = 10\<rparr>"


definition sample_displays :: "display list" where
  "sample_displays =
     [\<lparr>display_id = 1, display_screenX = Num 0, display_screenY = Num 0,
       display_width = Num 1920, display_height = Num 1080\<rparr>,
      \<lparr>display_id = 2, display_screenX = Num 1920, display_screenY = Num 0,
       display_width = Num 1920, display_height = Num 1080\<rparr>]"

definition sample_host :: electronScreen where
  "sample_host =
     \<lparr>has_getAllDisplays = True, has_getCurrentDisplay = True,
      has_moveWindowToDisplay = True,
      getAllDisplays = (\<lambda>n. Returns (Some sample_displays)),
      getCurrentDisplay = (\<lambda>n. Returns (Some
         \<lparr>cur_screenX = (if n < 3 then Num 0 else Num 1920), cur_screenY = Num 0,
          cur_bounds = None\<rparr>)),
      moveWindowToDisplay = (\<lambda>n mx my. Returns (Some
         \<lparr>move_success = True, move_sameDisplay = False\<rparr>))\<rparr>"

definition sample_env :: env where
  "sample_env =
     \<lparr>electronScreen = Some sample_host, innerWidth = 1920, innerHeight = 1080,
      getBounds = (\<lambda>m. case (model_x m, model_y m) of
         (Num mx, Num my) \<Rightarrow> Returns \<lparr>bounds_left = mx - 200, bounds_right = mx + 200,
                                     bounds_top = my - 300, bounds_bottom = my + 300\<rparr>
       | _ \<Rightarrow> Throws)\<rparr>"

definition sample_no_host :: env where
  "sample_no_host = sample_env\<lparr>electronScreen := None\<rparr>"

text \<open>The same host without \<^verbatim>\<open>getCurrentDisplay\<close>.\<close>

definition sample_no_current :: env where
  "sample_no_current =
     sample_env\<lparr>electronScreen := Some (sample_host\<lparr>has_getCurrentDisplay := False\<rparr>)\<rparr>"

text \<open>
  The double the literal \<^verbatim>\<open>1.1\<close> denotes, the double the literal \<^verbatim>\<open>0.1\<close> denotes, the least
  positive double (\<^verbatim>\<open>Number.MIN_VALUE\<close>, about \<open>5e-324\<close>), and the sample state with that
  scale.
\<close>

definition double_1_1 :: real where
  "double_1_1 = 2476979795053773 / 2 ^ 51"

definition double_0_1 :: real where
  "double_0_1 = 3602879701896397 / 2 ^ 55"

definition MIN_VALUE :: real where
  "MIN_VALUE = 2 powi (- 1074)"

definition tiny_state :: state where
  "tiny_state = sample_state\<lparr>the_model := scale_set (Num MIN_VALUE) sample_model\<rparr>"

text \<open>The sample state after a press on the model and a move far to the right.\<close>

definition sample_dragged :: state where
  "sample_dragged = onDragMove sample_far_move (on_pointerdown sample_down sample_state)"

section \<open>Rounding to doubles\<close>

text \<open>
  Facts about the rounding of the arithmetic: bounds on the rounded value, the doubles it
  leaves as they are, and what a factor or a divisor of at least 1.1 does to a positive
  double.
\<close>

lemma rhe_ge: "of_int n \<le> t \<Longrightarrow> n \<le> round_half_even t"
proof -
  assume "of_int n \<le> t"
  then have "n \<le> \<lfloor>t\<rfloor>" by (simp add: le_floor_iff)
  then show ?thesis by (simp add: round_half_even_def Let_def)
qed

lemma rhe_int [simp]: "round_half_even (of_int n) = n"
  by (simp add: round_half_even_def Let_def)

lemma rhe_le: "t \<le> of_int n \<Longrightarrow> round_half_even t \<le> n"
proof (cases "t = of_int n")
  case True
  then show ?thesis by simp
next
  case False
  assume "t \<le> of_int n"
  with False have "t < of_int n" by simp
  then have "\<lfloor>t\<rfloor> < n" by (simp add: floor_less_iff)
  then show ?thesis by (simp add: round_half_even_def Let_def)
qed

lemma rhe_pos: "1 / 2 < t \<Longrightarrow> 1 \<le> round_half_even t"
proof (cases "1 \<le> t")
  case True
  then show ?thesis using rhe_ge[of 1 t] by simp
next
  case False
  assume h: "1 / 2 < t"
  with False have "\<lfloor>t\<rfloor> = 0" by (simp add: floor_eq_iff)
  then show ?thesis using h by (simp add: round_half_even_def Let_def)
qed

lemma powr_powi: "(2::real) powr real_of_int k = 2 powi k"
  by (rule powr_real_of_int') simp_all

lemma powr_powi_Suc: "(2::real) powr (real_of_int k + 1) = 2 powi (k + 1)"
  using powr_powi[of "k + 1"] by simp

lemma floor_log_iff:
  assumes "0 < (x::real)"
  shows "\<lfloor>log 2 x\<rfloor> = k \<longleftrightarrow> 2 powi k \<le> x \<and> x < 2 powi (k + 1)"
  using floor_log_eq_powr_iff[OF assms, of 2 k] by (simp only: powr_powi powr_powi_Suc)

lemma floor_log_bounds:
  assumes "0 < (x::real)"
  shows "2 powi \<lfloor>log 2 x\<rfloor> \<le> x" and "x < 2 powi (\<lfloor>log 2 x\<rfloor> + 1)"
  using floor_log_iff[OF assms, of "\<lfloor>log 2 x\<rfloor>"] by simp_all

lemma floor_log_eqI:
  assumes "2 powi k \<le> (x::real)" "x < 2 powi (k + 1)"
  shows "\<lfloor>log 2 x\<rfloor> = k"
proof -
  have "0 < (2::real) powi k" by simp
  with assms(1) have x: "0 < x" by linarith
  show ?thesis using floor_log_iff[OF x, of k] assms by simp
qed

text \<open>The spacing: monotone, and \<open>x\<close> lies less than 53 binary places above it.\<close>

lemma ulp_ge: "- 1074 \<le> ulp_exponent x"
  by (simp add: ulp_exponent_def)

lemma ulp_mono:
  assumes "0 < x" "x \<le> y"
  shows "ulp_exponent x \<le> ulp_exponent y"
proof -
  have "log 2 x \<le> log 2 y" using assms by simp
  then have "\<lfloor>log 2 x\<rfloor> \<le> \<lfloor>log 2 y\<rfloor>" by (rule floor_mono)
  then show ?thesis using assms by (simp add: ulp_exponent_def)
qed

lemma ulp_upper:
  assumes "0 < x"
  shows "x < 2 powi (ulp_exponent x + 53)"
proof -
  have "\<lfloor>log 2 x\<rfloor> + 1 \<le> ulp_exponent x + 53" using assms by (simp add: ulp_exponent_def)
  then have "(2::real) powi (\<lfloor>log 2 x\<rfloor> + 1) \<le> 2 powi (ulp_exponent x + 53)"
    by (intro power_int_increasing) simp_all
  with floor_log_bounds(2)[OF assms] show ?thesis by linarith
qed

lemma ulp_lower:
  assumes "0 < x" "- 1074 < ulp_exponent x"
  shows "2 powi (ulp_exponent x + 52) \<le> x"
proof -
  have "ulp_exponent x = \<lfloor>log 2 x\<rfloor> - 52"
    using assms by (simp add: ulp_exponent_def max_def split: if_splits)
  then have "ulp_exponent x + 52 = \<lfloor>log 2 x\<rfloor>" by simp
  with floor_log_bounds(1)[OF assms(1)] show ?thesis by simp
qed

lemma ulp_eqI:
  assumes "2 powi k \<le> x" "x < 2 powi (k + 1)"
  shows "ulp_exponent x = max (k - 52) (- 1074)"
proof -
  have "0 < (2::real) powi k" by simp
  with assms(1) have x: "0 < x" by linarith
  show ?thesis using floor_log_eqI[OF assms] x by (simp add: ulp_exponent_def)
qed

lemma ulp_small:
  assumes "0 < x" "x < 2 powi (- 1021)"
  shows "ulp_exponent x = - 1074"
proof -
  have "\<lfloor>log 2 x\<rfloor> < - 1021"
  proof (rule ccontr)
    assume "\<not> \<lfloor>log 2 x\<rfloor> < - 1021"
    then have "- 1021 \<le> \<lfloor>log 2 x\<rfloor>" by simp
    then have "(2::real) powi (- 1021) \<le> 2 powi \<lfloor>log 2 x\<rfloor>"
      by (intro power_int_increasing) simp_all
    with floor_log_bounds(1)[OF assms(1)] assms(2) show False by linarith
  qed
  then have "\<lfloor>log 2 x\<rfloor> - 52 \<le> - 1074" by linarith
  then show ?thesis using assms(1) by (simp add: ulp_exponent_def max_def del: floor_less_iff)
qed

text \<open>
  Rounding is monotone against the doubles: a double below \<open>x\<close> is below the rounded \<open>x\<close>,
  one above \<open>x\<close> is above it, and a positive real above half the least positive double
  does not round to zero.
\<close>

lemma nearest_lower:
  assumes "0 < x" "- 1074 \<le> j" "j \<le> ulp_exponent x" "n \<le> 2 ^ 53"
    and "of_int n * 2 powi j \<le> x"
  shows "of_int n * 2 powi j \<le> nearest x"
proof (cases "j = ulp_exponent x")
  case True
  have "of_int n \<le> x / 2 powi j"
    using assms(5) by (simp add: field_simps)
  then have "n \<le> round_half_even (x / 2 powi j)" by (rule rhe_ge)
  then have "real_of_int n * 2 powi j \<le> real_of_int (round_half_even (x / 2 powi j)) * 2 powi j"
    by (intro mult_right_mono) simp_all
  then show ?thesis using True by (simp add: nearest_def)
next
  case False
  let ?k = "ulp_exponent x"
  from False assms(3) have jk: "j + 1 \<le> ?k" by simp
  with assms(2) have "- 1074 < ?k" by simp
  from ulp_lower[OF assms(1) this] have "2 powi (?k + 52) \<le> x" .
  then have "2 powi 52 * 2 powi ?k \<le> x" by (simp add: power_int_add)
  then have "of_int (2 ^ 52) \<le> x / 2 powi ?k" by (simp add: field_simps)
  then have "2 ^ 52 \<le> round_half_even (x / 2 powi ?k)" by (rule rhe_ge)
  then have "(2::real) ^ 52 \<le> of_int (round_half_even (x / 2 powi ?k))"
    by (metis of_int_le_iff of_int_numeral of_int_power)
  then have "2 ^ 52 * 2 powi ?k \<le> nearest x"
    unfolding nearest_def by (intro mult_right_mono) simp_all
  moreover have "of_int n * 2 powi j \<le> (2::real) ^ 52 * 2 powi ?k"
  proof -
    have "(of_int n :: real) \<le> 2 ^ 53" using assms(4)
      by (metis of_int_le_iff of_int_numeral of_int_power)
    then have "of_int n * 2 powi j \<le> (2::real) ^ 53 * 2 powi j"
      by (intro mult_right_mono) simp_all
    also have "\<dots> = 2 ^ 52 * 2 powi (j + 1)" by (simp add: power_int_add)
    also have "\<dots> \<le> 2 ^ 52 * 2 powi ?k"
      using jk by (intro mult_left_mono power_int_increasing) simp_all
    finally show ?thesis .
  qed
  ultimately show ?thesis by linarith
qed

lemma nearest_upper:
  assumes "x \<le> of_int N * 2 powi ulp_exponent x"
  shows "nearest x \<le> of_int N * 2 powi ulp_exponent x"
proof -
  have "x / 2 powi ulp_exponent x \<le> of_int N" using assms by (simp add: field_simps)
  then have "round_half_even (x / 2 powi ulp_exponent x) \<le> N" by (rule rhe_le)
  then show ?thesis unfolding nearest_def by (intro mult_right_mono) simp_all
qed

lemma nearest_pos:
  assumes "2 powi (- 1075) < x"
  shows "2 powi (- 1074) \<le> nearest x"
proof -
  have "0 < (2::real) powi (- 1075)" by simp
  with assms have x: "0 < x" by linarith
  show ?thesis
  proof (cases "ulp_exponent x = - 1074")
    case True
    have "(2::real) powi (- 1075) = 1 / 2 * 2 powi (- 1074)"
      by (simp add: power_int_minus field_simps)
    with assms have "1 / 2 < x / 2 powi (- 1074)" by (simp add: field_simps)
    then have "1 \<le> round_half_even (x / 2 powi (- 1074))" by (rule rhe_pos)
    then have "(1::real) \<le> of_int (round_half_even (x / 2 powi (- 1074)))" by simp
    then have "1 * 2 powi (- 1074) \<le> nearest x"
      unfolding nearest_def True by (intro mult_right_mono) simp_all
    then show ?thesis by simp
  next
    case False
    have "of_int 1 * 2 powi (- 1074) \<le> nearest x"
    proof (rule nearest_lower[OF x])
      show "- 1074 \<le> (- 1074 :: int)" by simp
      show "- 1074 \<le> ulp_exponent x" by (rule ulp_ge)
      show "(1::int) \<le> 2 ^ 53" by simp
      have "- 1074 < ulp_exponent x" using False ulp_ge[of x] by simp
      from ulp_lower[OF x this] have "2 powi (ulp_exponent x + 52) \<le> x" .
      moreover have "(2::real) powi (- 1074) \<le> 2 powi (ulp_exponent x + 52)"
        using ulp_ge[of x] by (intro power_int_increasing) simp_all
      ultimately show "of_int 1 * 2 powi (- 1074) \<le> x" by simp
    qed
    then show ?thesis by simp
  qed
qed

text \<open>Integers below \<open>2 ^ 53\<close> in absolute value are doubles; so is the rounded \<^verbatim>\<open>1.1\<close>.\<close>

lemma nearest_exact:
  assumes "x / 2 powi ulp_exponent x = of_int n"
  shows "nearest x = x"
proof -
  have "nearest x = of_int n * 2 powi ulp_exponent x"
    by (simp add: nearest_def assms)
  also have "\<dots> = x / 2 powi ulp_exponent x * 2 powi ulp_exponent x" by (simp add: assms)
  also have "\<dots> = x" by simp
  finally show ?thesis .
qed

lemma round_double_exact:
  assumes "x / 2 powi ulp_exponent x = of_int n" "\<bar>x\<bar> < 2 ^ 1024"
  shows "round_double x = Num x"
  using assms(2) by (auto simp: round_double_def nearest_exact[OF assms(1)])

lemma ulp_abs: "ulp_exponent (- x) = ulp_exponent x"
  by (simp add: ulp_exponent_def)

lemma round_double_of_int:
  assumes "\<bar>n\<bar> < 2 ^ 53"
  shows "round_double (of_int n) = Num (of_int n)"
proof (cases "n = 0")
  case True
  then show ?thesis by (simp add: round_double_def)
next
  case False
  let ?a = "\<bar>real_of_int n\<bar>"
  have a1: "1 \<le> ?a" using False by (simp flip: of_int_abs)
  then have a0: "0 < ?a" by linarith
  have a53: "?a < 2 powi 53"
  proof -
    have "real_of_int \<bar>n\<bar> < real_of_int (2 ^ 53)" using assms by (simp only: of_int_less_iff)
    then show ?thesis by simp
  qed
  let ?k = "\<lfloor>log 2 ?a\<rfloor>"
  have k0: "0 \<le> ?k" using a1 by simp
  have k52: "?k \<le> 52"
  proof (rule ccontr)
    assume "\<not> ?k \<le> 52"
    then have "53 \<le> ?k" by simp
    then have "(2::real) powi 53 \<le> 2 powi ?k" by (intro power_int_increasing) simp_all
    with floor_log_bounds(1)[OF a0] a53 show False by linarith
  qed
  have "max (?k - 52) (- 1074) = ?k - 52" using k0 by linarith
  then have e: "ulp_exponent (of_int n) = ?k - 52"
    unfolding ulp_exponent_def .
  have "real_of_int n / 2 powi (?k - 52) = real_of_int n * 2 powi (52 - ?k)"
    by (simp add: power_int_diff field_simps)
  also have "\<dots> = real_of_int n * 2 ^ nat (52 - ?k)"
    using k52 by (simp add: power_int_def)
  also have "\<dots> = of_int (n * 2 ^ nat (52 - ?k))" by simp
  finally have g: "real_of_int n / 2 powi ulp_exponent (of_int n) = of_int (n * 2 ^ nat (52 - ?k))"
    using e by simp
  have "(2::real) ^ 53 \<le> 2 ^ 1024" by (rule power_increasing) simp_all
  moreover have "?a < 2 ^ 53" using a53 by simp
  ultimately have "?a < 2 ^ 1024" by linarith
  then show ?thesis using round_double_exact[OF g] by simp
qed

lemma round_double_numeral [simp]:
  "(numeral w :: int) < 2 ^ 53 \<Longrightarrow> round_double (numeral w) = Num (numeral w)"
  using round_double_of_int[of "numeral w"] by simp

lemma round_double_0 [simp]: "round_double 0 = Num 0"
  by (simp add: round_double_def)

lemma round_double_1 [simp]: "round_double 1 = Num 1"
  using round_double_of_int[of 1] by simp

lemma ulp_1_1: "ulp_exponent (11 / 10) = - 52"
  using ulp_eqI[of 0 "11 / 10"] by simp

lemma round_1_1: "round_double (11 / 10) = Num double_1_1"
  by (simp add: round_double_def nearest_def ulp_1_1 round_half_even_def Let_def double_1_1_def
      power_int_minus)

lemma nearest_nonneg:
  assumes "0 \<le> x"
  shows "0 \<le> nearest x"
proof -
  have "of_int 0 \<le> x / 2 powi ulp_exponent x" using assms by simp
  then have "0 \<le> round_half_even (x / 2 powi ulp_exponent x)" by (rule rhe_ge)
  then show ?thesis by (simp add: nearest_def)
qed

lemma round_double_pos:
  assumes "0 < x"
  shows "round_double x = (if 2 ^ 1024 \<le> nearest x then PosInf else Num (nearest x))"
proof -
  have "0 \<le> nearest x" using assms by (intro nearest_nonneg) simp
  moreover have "(0::real) < 2 ^ 1024" by simp
  ultimately have "\<not> nearest x \<le> - (2 ^ 1024)" by linarith
  then show ?thesis using assms by (simp add: round_double_def)
qed

text \<open>
  A positive double is a multiple of its spacing, with a significand below \<open>2 ^ 53\<close>, and
  from \<open>2 ^ - 1070\<close> on it is at least sixteen times its spacing.
\<close>

lemma double_grid:
  assumes "is_double r" "0 < r"
  obtains m where "1 \<le> m" "r = of_int m * 2 powi ulp_exponent r" "r < 2 ^ 1024"
    "nearest r = r"
proof -
  from assms have rd: "(if 2 ^ 1024 \<le> nearest r then PosInf else Num (nearest r)) = Num r"
    by (simp add: is_double_def round_double_pos)
  then have n: "nearest r = r" and b: "r < 2 ^ 1024"
    by (auto split: if_splits)
  let ?m = "round_half_even (r / 2 powi ulp_exponent r)"
  have eq: "r = of_int ?m * 2 powi ulp_exponent r" using n by (simp add: nearest_def)
  have u: "0 < (2::real) powi ulp_exponent r" by simp
  have "0 < real_of_int ?m * 2 powi ulp_exponent r" using eq assms(2) by simp
  then have "0 < real_of_int ?m" using u by (rule zero_less_mult_pos2)
  then have "1 \<le> ?m" by simp
  then show ?thesis using eq b n that by blast
qed

lemma grid_below_2p53:
  assumes "0 < r" "r = of_int m * 2 powi ulp_exponent r"
  shows "m < 2 ^ 53"
proof -
  have "real_of_int m * 2 powi ulp_exponent r < 2 powi (ulp_exponent r + 53)"
    using ulp_upper[OF assms(1)] assms(2) by simp
  also have "\<dots> = 2 ^ 53 * 2 powi ulp_exponent r" by (simp add: power_int_add)
  finally have "real_of_int m < 2 ^ 53" by simp
  then have "real_of_int m < real_of_int (2 ^ 53)" by simp
  then show ?thesis by (simp only: of_int_less_iff)
qed

lemma sixteen_ulps:
  assumes "2 powi (- 1070) \<le> r"
  shows "16 * 2 powi ulp_exponent r \<le> r"
proof -
  have "0 < (2::real) powi (- 1070)" by simp
  with assms have r: "0 < r" by linarith
  show ?thesis
  proof (cases "ulp_exponent r = - 1074")
    case True
    have "(16::real) * 2 powi (- 1074) = 2 powi (- 1070)"
      by (simp add: power_int_minus field_simps)
    then show ?thesis using assms True by simp
  next
    case False
    then have "- 1074 < ulp_exponent r" using ulp_ge[of r] by simp
    from ulp_lower[OF r this] have "2 powi (ulp_exponent r + 52) \<le> r" .
    then have "2 ^ 52 * 2 powi ulp_exponent r \<le> r" by (simp add: power_int_add)
    moreover have "(16::real) * 2 powi ulp_exponent r \<le> 2 ^ 52 * 2 powi ulp_exponent r"
      by (intro mult_right_mono) simp_all
    ultimately show ?thesis by linarith
  qed
qed

text \<open>
  The product of a positive double with a factor of at least 1 does not round below it,
  and with a factor of at least 1.1 it rounds strictly above it from \<open>2 ^ - 1070\<close> on;
  likewise for the quotient, downwards.
\<close>

lemma up_ge:
  assumes "is_double r" "0 < r" "1 \<le> c"
  shows "r \<le> nearest (r * c)"
proof -
  from double_grid[OF assms(1,2)] obtain m where
    m: "1 \<le> m" "r = of_int m * 2 powi ulp_exponent r" by blast
  have rx: "r \<le> r * c" using assms(2,3) by simp
  have x: "0 < r * c" using assms(2) rx by linarith
  have "of_int m * 2 powi ulp_exponent r \<le> nearest (r * c)"
  proof (rule nearest_lower[OF x])
    show "- 1074 \<le> ulp_exponent r" by (rule ulp_ge)
    show "ulp_exponent r \<le> ulp_exponent (r * c)" by (rule ulp_mono[OF assms(2) rx])
    show "m \<le> 2 ^ 53" using grid_below_2p53[OF assms(2) m(2)] by simp
    show "real_of_int m * 2 powi ulp_exponent r \<le> r * c" using m(2) rx by simp
  qed
  then show ?thesis using m(2) by simp
qed

lemma up_gt:
  assumes "is_double r" "2 powi (- 1070) \<le> r" "11 / 10 \<le> c"
  shows "r < nearest (r * c)"
proof -
  have "0 < (2::real) powi (- 1070)" by simp
  with assms(2) have r: "0 < r" by linarith
  from double_grid[OF assms(1) r] obtain m where
    m: "1 \<le> m" "r = of_int m * 2 powi ulp_exponent r" by blast
  let ?u = "2 powi ulp_exponent r :: real"
  have u: "0 < ?u" by simp
  have s: "16 * ?u \<le> r" by (rule sixteen_ulps[OF assms(2)])
  have "r * (11 / 10) \<le> r * c" using r assms(3) by (intro mult_left_mono) simp_all
  moreover have "r + ?u \<le> r * (11 / 10)" using s u by linarith
  ultimately have big: "r + ?u \<le> r * c" by linarith
  have rx: "r \<le> r * c" using big u by linarith
  have x: "0 < r * c" using r rx by linarith
  have "of_int (m + 1) * ?u \<le> nearest (r * c)"
  proof (rule nearest_lower[OF x])
    show "- 1074 \<le> ulp_exponent r" by (rule ulp_ge)
    show "ulp_exponent r \<le> ulp_exponent (r * c)" by (rule ulp_mono[OF r rx])
    show "m + 1 \<le> 2 ^ 53" using grid_below_2p53[OF r m(2)] by simp
    have "real_of_int (m + 1) * ?u = r + ?u" using m(2) by (simp add: algebra_simps)
    then show "real_of_int (m + 1) * ?u \<le> r * c" using big by simp
  qed
  moreover have "real_of_int (m + 1) * ?u = r + ?u" using m(2) by (simp add: algebra_simps)
  ultimately show ?thesis using u by linarith
qed

lemma down_grid:
  assumes "is_double r" "0 < r" "0 < x" "x \<le> r"
  obtains N where "r = of_int N * 2 powi ulp_exponent x"
proof -
  from double_grid[OF assms(1,2)] obtain m where
    m: "r = of_int m * 2 powi ulp_exponent r" by blast
  have k: "ulp_exponent x \<le> ulp_exponent r" by (rule ulp_mono[OF assms(3,4)])
  let ?d = "nat (ulp_exponent r - ulp_exponent x)"
  have "(2::real) powi ulp_exponent r =
          2 powi (ulp_exponent r - ulp_exponent x) * 2 powi ulp_exponent x"
    by (simp flip: power_int_add)
  moreover have "(2::real) powi (ulp_exponent r - ulp_exponent x) = 2 ^ ?d"
    using k by (intro power_int_nonneg_exp) simp
  ultimately have "(2::real) powi ulp_exponent r = 2 ^ ?d * 2 powi ulp_exponent x" by simp
  then have "r = of_int (m * 2 ^ ?d) * 2 powi ulp_exponent x"
    using m by simp
  then show ?thesis using that by blast
qed

lemma down_le:
  assumes "is_double r" "0 < r" "1 \<le> c"
  shows "nearest (r / c) \<le> r"
proof -
  have c: "0 < c" using assms(3) by linarith
  have x: "0 < r / c" using assms(2) c by simp
  have xr: "r / c \<le> r" using assms(2,3) c by (simp add: field_simps)
  from down_grid[OF assms(1,2) x xr] obtain N where
    N: "r = of_int N * 2 powi ulp_exponent (r / c)" by blast
  have "nearest (r / c) \<le> of_int N * 2 powi ulp_exponent (r / c)"
    by (rule nearest_upper) (use N xr in simp)
  then show ?thesis using N by simp
qed

lemma down_lt:
  assumes "is_double r" "2 powi (- 1070) \<le> r" "11 / 10 \<le> c"
  shows "nearest (r / c) < r"
proof -
  have "0 < (2::real) powi (- 1070)" by simp
  with assms(2) have r: "0 < r" by linarith
  have c: "0 < c" using assms(3) by linarith
  have x: "0 < r / c" using r c by simp
  have "r / c \<le> r / (11 / 10)" using r c assms(3) by (intro divide_left_mono) simp_all
  then have x10: "r / c \<le> r * (10 / 11)" by simp
  then have xr: "r / c \<le> r" using r by linarith
  from down_grid[OF assms(1) r x xr] obtain N where
    N: "r = of_int N * 2 powi ulp_exponent (r / c)" by blast
  let ?u = "2 powi ulp_exponent (r / c) :: real"
  have u: "0 < ?u" by simp
  have "16 * 2 powi ulp_exponent r \<le> r" by (rule sixteen_ulps[OF assms(2)])
  moreover have "?u \<le> 2 powi ulp_exponent r"
    using ulp_mono[OF x xr] by (intro power_int_increasing) simp_all
  ultimately have s: "16 * ?u \<le> r" by linarith
  have "r * (10 / 11) \<le> r - ?u" using s u by linarith
  with x10 have "r / c \<le> r - ?u" by linarith
  moreover have "real_of_int (N - 1) * ?u = r - ?u" using N by (simp add: algebra_simps)
  ultimately have "r / c \<le> real_of_int (N - 1) * ?u" by simp
  then have "nearest (r / c) \<le> real_of_int (N - 1) * ?u" by (rule nearest_upper)
  then show ?thesis using \<open>real_of_int (N - 1) * ?u = r - ?u\<close> u by linarith
qed

lemma double_ge_min:
  assumes "is_double r" "0 < r"
  shows "2 powi (- 1074) \<le> r"
proof -
  from double_grid[OF assms] obtain m where
    m: "1 \<le> m" "r = of_int m * 2 powi ulp_exponent r" by blast
  have "(2::real) powi (- 1074) \<le> 2 powi ulp_exponent r"
    using ulp_ge[of r] by (intro power_int_increasing) simp_all
  also have "\<dots> = 1 * 2 powi ulp_exponent r" by simp
  also have "\<dots> \<le> real_of_int m * 2 powi ulp_exponent r"
    using m(1) by (intro mult_right_mono) simp_all
  finally show ?thesis using m(2) by simp
qed

lemma double_1_1_bounds: "11 / 10 \<le> double_1_1" "double_1_1 < 2"
  by (simp_all add: double_1_1_def)

lemma is_double_1_1: "is_double double_1_1"
proof -
  have e: "ulp_exponent double_1_1 = - 52"
    using ulp_eqI[of 0 double_1_1] by (simp add: double_1_1_def)
  have "double_1_1 / 2 powi (- 52) = of_int 4953959590107546"
    by (simp add: double_1_1_def power_int_minus)
  then have "double_1_1 / 2 powi ulp_exponent double_1_1 = of_int 4953959590107546"
    by (simp only: e)
  moreover have "\<bar>double_1_1\<bar> < 2 ^ 1024"
  proof -
    have "(2::real) ^ 1 \<le> 2 ^ 1024" by (rule power_increasing) simp_all
    then show ?thesis using double_1_1_bounds by simp
  qed
  ultimately show ?thesis unfolding is_double_def by (rule round_double_exact)
qed

text \<open>
  The least positive double: its product with the double of \<^verbatim>\<open>1.1\<close> and its quotient by it
  both round back to it.
\<close>

lemma is_double_min_powi: "is_double (2 powi (- 1074))"
proof -
  have e: "ulp_exponent (2 powi (- 1074)) = - 1074"
    by (rule ulp_small) (simp_all add: power_int_minus)
  have "(2::real) powi (- 1074) / 2 powi (- 1074) = of_int 1" by simp
  then have "(2::real) powi (- 1074) / 2 powi ulp_exponent (2 powi (- 1074)) = of_int 1"
    by (simp only: e)
  moreover have "\<bar>(2::real) powi (- 1074)\<bar> < 2 ^ 1024"
  proof -
    have "(2::real) powi (- 1074) \<le> 2 powi 0" by (intro power_int_increasing) simp_all
    moreover have "(1::real) < 2 ^ 1024" by (rule one_less_power) simp_all
    ultimately show ?thesis by simp
  qed
  ultimately show ?thesis unfolding is_double_def by (rule round_double_exact)
qed

lemma min_stalls_down_powi:
  "round_double (2 powi (- 1074) / double_1_1) = Num (2 powi (- 1074))"
proof -
  let ?x = "2 powi (- 1074) / double_1_1 :: real"
  have x: "0 < ?x" by (simp add: double_1_1_def)
  have "?x \<le> 2 powi (- 1074)" using double_1_1_bounds by (simp add: field_simps)
  moreover have "(2::real) powi (- 1074) < 2 powi (- 1021)"
    by (intro power_int_strict_increasing) simp_all
  ultimately have e: "ulp_exponent ?x = - 1074" using x by (intro ulp_small) simp_all
  have q: "?x / 2 powi (- 1074) = 1 / double_1_1" by simp
  have "round_half_even (1 / double_1_1) = 1"
    by (simp add: round_half_even_def Let_def double_1_1_def)
  then have "of_int (round_half_even (?x / 2 powi (- 1074))) * 2 powi (- 1074) =
      (2::real) powi (- 1074)"
    by (simp only: q)
  then have n: "nearest ?x = 2 powi (- 1074)" unfolding nearest_def by (simp only: e)
  have "(2::real) powi (- 1074) \<le> 2 powi 0" by (intro power_int_increasing) simp_all
  moreover have "(1::real) < 2 ^ 1024" by (rule one_less_power) simp_all
  ultimately have "\<not> 2 ^ 1024 \<le> nearest ?x" using n by simp
  then show ?thesis using round_double_pos[OF x] n by simp
qed

lemma min_stalls_up_powi:
  "round_double (2 powi (- 1074) * double_1_1) = Num (2 powi (- 1074))"
proof -
  let ?x = "2 powi (- 1074) * double_1_1 :: real"
  have x: "0 < ?x" by (simp add: double_1_1_def)
  have "?x < 2 powi (- 1074) * 2" using double_1_1_bounds by simp
  also have "\<dots> = 2 powi (- 1073)" by (simp add: power_int_minus field_simps)
  also have "\<dots> < 2 powi (- 1021)" by (intro power_int_strict_increasing) simp_all
  finally have e: "ulp_exponent ?x = - 1074" using x by (intro ulp_small) simp_all
  have q: "?x / 2 powi (- 1074) = double_1_1" by simp
  have "round_half_even double_1_1 = 1"
    by (simp add: round_half_even_def Let_def double_1_1_def)
  then have "of_int (round_half_even (?x / 2 powi (- 1074))) * 2 powi (- 1074) =
      (2::real) powi (- 1074)"
    by (simp only: q)
  then have n: "nearest ?x = 2 powi (- 1074)" unfolding nearest_def by (simp only: e)
  have "(2::real) powi (- 1074) \<le> 2 powi 0" by (intro power_int_increasing) simp_all
  moreover have "(1::real) < 2 ^ 1024" by (rule one_less_power) simp_all
  ultimately have "\<not> 2 ^ 1024 \<le> nearest ?x" using n by simp
  then show ?thesis using round_double_pos[OF x] n by simp
qed

lemma is_double_MIN_VALUE: "is_double MIN_VALUE"
  unfolding MIN_VALUE_def by (rule is_double_min_powi)

lemma MIN_VALUE_pos: "0 < MIN_VALUE"
  by (simp add: MIN_VALUE_def)

lemma MIN_VALUE_stalls:
  "round_double (MIN_VALUE / double_1_1) = Num MIN_VALUE"
  "round_double (MIN_VALUE * double_1_1) = Num MIN_VALUE"
  unfolding MIN_VALUE_def by (rule min_stalls_down_powi, rule min_stalls_up_powi)

lemma double_ge_MIN_VALUE: "is_double r \<Longrightarrow> 0 < r \<Longrightarrow> MIN_VALUE \<le> r"
  unfolding MIN_VALUE_def by (rule double_ge_min)

text \<open>The literals of the file.\<close>

lemma double_1_1_nonzero [simp]: "double_1_1 \<noteq> 0"
  using double_1_1_bounds by simp

lemma round_double_1_1 [simp]: "round_double double_1_1 = Num double_1_1"
  using is_double_1_1 by (simp add: is_double_def)

lemma is_double_1: "is_double 1"
  by (simp add: is_double_def)

lemma literal_1_1 [simp]: "js_literal (11 / 10) = Num double_1_1"
  by (simp add: js_literal_def round_1_1)

lemma literal_2 [simp]: "js_literal 2 = Num 2"
  by (simp add: js_literal_def)

lemma ulp_half: "ulp_exponent (1 / 2) = - 53"
  using ulp_eqI[of "- 1" "1 / 2"] by (simp add: power_int_minus)

lemma literal_half [simp]: "js_literal (1 / 2) = Num (1 / 2)"
proof -
  have "(1 / 2 :: real) / 2 powi (- 53) = of_int (2 ^ 52)"
    by (simp add: power_int_minus)
  then have "(1 / 2 :: real) / 2 powi ulp_exponent (1 / 2) = of_int (2 ^ 52)"
    by (simp only: ulp_half)
  moreover have "\<bar>1 / 2 :: real\<bar> < 2 ^ 1024"
  proof -
    have "(1::real) < 2 ^ 1024" by (rule one_less_power) simp_all
    then show ?thesis by simp
  qed
  ultimately show ?thesis unfolding js_literal_def by (rule round_double_exact)
qed

lemma ulp_0_1: "ulp_exponent (1 / 10) = - 56"
  using ulp_eqI[of "- 4" "1 / 10"] by (simp add: power_int_minus)

lemma literal_0_1 [simp]: "js_literal (1 / 10) = Num double_0_1"
  by (simp add: js_literal_def round_double_def nearest_def ulp_0_1 round_half_even_def Let_def
      double_0_1_def power_int_minus)

text \<open>Comparisons of a rounded positive real with a bound.\<close>

lemma js_ge_round: "0 < x \<Longrightarrow> b \<le> nearest x \<Longrightarrow> js_ge (round_double x) (Num b)"
  by (simp add: round_double_pos js_ge_def)

lemma js_lt_round: "0 < x \<Longrightarrow> b < nearest x \<Longrightarrow> js_lt (Num b) (round_double x)"
  by (simp add: round_double_pos)

lemma round_below:
  assumes "0 < x" "nearest x \<le> b" "b < 2 ^ 1024"
  shows "round_double x = Num (nearest x)"
  using assms by (simp add: round_double_pos)

section \<open>The concrete inputs evaluated\<close>

lemmas sample_defs = sample_state_def sample_model_def initial_state_def

lemmas sample_event_defs = sample_down_def sample_move_def sample_interrupt_def sample_touches_def

lemma sample_state_simps:
  "\<not> isLocked sample_state" "hasCurrentModel sample_state"
  "model_scale_x (the_model sample_state) = Num 1"
  by (simp_all add: sample_defs)

lemma sample_dragged_eq:
  "sample_dragged = sample_state\<lparr>isDragging := True,
      dragStartPos := (Num 50, Num 60), canvas_cursor := ''grabbing'',
      the_model := sample_model\<lparr>model_x := Num 2200, model_y := Num 400\<rparr>\<rparr>"
  by (simp add: sample_dragged_def sample_far_move_def sample_down_def on_pointerdown_def
      onDragMove_def multi_touch_def sample_defs js_sub_def enableButtonEventPropagation_def)

lemma sample_dragged_simps:
  "isDragging sample_dragged" "calls sample_dragged = []"
  by (simp_all add: sample_dragged_eq sample_defs)

section \<open>Wheel zoom\<close>

lemma wheel_scale_x:
  "\<not> isLocked s \<Longrightarrow> hasCurrentModel s \<Longrightarrow>
   model_scale_x (the_model (onWheelScroll d s)) =
     (if d < 0 then js_mul (model_scale_x (the_model s)) (js_literal 1.1)
      else js_div (model_scale_x (the_model s)) (js_literal 1.1))"
  by (simp add: onWheelScroll_def debouncedSavePosition_def clearTimeout_def scale_set_def Let_def
      split: option.splits)

lemma wheel_scale_y:
  "\<not> isLocked s \<Longrightarrow> hasCurrentModel s \<Longrightarrow>
   model_scale_y (the_model (onWheelScroll d s)) =
     (if d < 0 then js_mul (model_scale_x (the_model s)) (js_literal 1.1)
      else js_div (model_scale_x (the_model s)) (js_literal 1.1))"
  by (simp add: onWheelScroll_def debouncedSavePosition_def clearTimeout_def scale_set_def Let_def
      split: option.splits)

text \<open>A positive double times or divided by the double of \<^verbatim>\<open>1.1\<close>, rounded.\<close>

lemma scale_up:
  assumes "is_double r" "0 < r"
  shows "js_ge (js_mul (Num r) (js_literal 1.1)) (Num r)"
proof -
  have x: "0 < r * double_1_1" using assms(2) double_1_1_bounds(1) by simp
  have "r \<le> nearest (r * double_1_1)"
    using double_1_1_bounds(1) by (intro up_ge[OF assms]) simp
  from js_ge_round[OF x this] show ?thesis by simp
qed

lemma scale_up_strict:
  assumes "is_double r" "2 powi (- 1070) \<le> r"
  shows "js_lt (Num r) (js_mul (Num r) (js_literal 1.1))"
proof -
  have "0 < (2::real) powi (- 1070)" by simp
  with assms(2) have r: "0 < r" by linarith
  have x: "0 < r * double_1_1" using r double_1_1_bounds(1) by simp
  have "r < nearest (r * double_1_1)"
    by (rule up_gt[OF assms double_1_1_bounds(1)])
  from js_lt_round[OF x this] show ?thesis by simp
qed

lemma scale_down_value:
  assumes "is_double r" "0 < r"
  shows "js_div (Num r) (js_literal 1.1) = Num (nearest (r / double_1_1))"
    and "MIN_VALUE \<le> nearest (r / double_1_1)" and "nearest (r / double_1_1) \<le> r"
proof -
  have c1: "1 \<le> double_1_1" using double_1_1_bounds(1) by simp
  have x: "0 < r / double_1_1" using assms(2) c1 by simp
  show le: "nearest (r / double_1_1) \<le> r" by (rule down_le[OF assms c1])
  from double_grid[OF assms] have b: "r < 2 ^ 1024" by blast
  from round_below[OF x le b]
  show "js_div (Num r) (js_literal 1.1) = Num (nearest (r / double_1_1))" by simp
  have "(2::real) powi (- 1075) = 2 powi (- 1074) / 2"
    by (simp add: power_int_minus field_simps)
  also have "\<dots> \<le> r / 2"
    using double_ge_min[OF assms] by simp
  also have "\<dots> < r / double_1_1"
    using assms(2) double_1_1_bounds c1 by (intro divide_strict_left_mono) simp_all
  finally have "2 powi (- 1075) < r / double_1_1" .
  then show "MIN_VALUE \<le> nearest (r / double_1_1)"
    unfolding MIN_VALUE_def by (rule nearest_pos)
qed

lemma scale_down:
  assumes "is_double r" "0 < r"
  shows "js_ge (Num r) (js_div (Num r) (js_literal 1.1)) \<and>
         js_lt (Num 0) (js_div (Num r) (js_literal 1.1))"
  using scale_down_value[OF assms] MIN_VALUE_pos by (simp add: js_ge_def)

lemma scale_down_strict:
  assumes "is_double r" "2 powi (- 1070) \<le> r"
  shows "js_lt (js_div (Num r) (js_literal 1.1)) (Num r)"
proof -
  have "0 < (2::real) powi (- 1070)" by simp
  with assms(2) have r: "0 < r" by linarith
  have "nearest (r / double_1_1) < r"
    by (rule down_lt[OF assms double_1_1_bounds(1)])
  then show ?thesis using scale_down_value(1)[OF assms(1) r] by simp
qed

text \<open>Both branches leave a scale of 0 and a scale of NaN as they are.\<close>

lemma scale_zero_NaN_fixed:
  "js_mul (Num 0) (js_literal 1.1) = Num 0" "js_div (Num 0) (js_literal 1.1) = Num 0"
  "js_mul NaN (js_literal 1.1) = NaN" "js_div NaN (js_literal 1.1) = NaN"
  by simp_all

text \<open>
  One wheel event keeps the scale at or above the least positive double (or at Infinity),
  locked or not.
\<close>

lemma keep_min_mul:
  assumes "js_ge v (Num MIN_VALUE)"
  shows "js_ge (js_mul v (js_literal 1.1)) (Num MIN_VALUE)"
proof (cases v)
  case (Num r)
  with assms have r: "MIN_VALUE \<le> r" by (simp add: js_ge_def)
  then have r0: "0 < r" using MIN_VALUE_pos by linarith
  have x: "0 < r * double_1_1" using r0 double_1_1_bounds(1) by simp
  have "(2::real) powi (- 1075) < 2 powi (- 1074)"
    by (intro power_int_strict_increasing) simp_all
  also have "\<dots> \<le> r" using r by (simp add: MIN_VALUE_def)
  also have "\<dots> \<le> r * double_1_1" using r0 double_1_1_bounds(1) by simp
  finally have "MIN_VALUE \<le> nearest (r * double_1_1)"
    unfolding MIN_VALUE_def by (rule nearest_pos)
  from js_ge_round[OF x this] show ?thesis using Num by simp
next
  case PosInf
  then show ?thesis using double_1_1_bounds(1) by (simp add: js_ge_def)
next
  case NegInf
  with assms show ?thesis by (simp add: js_ge_def)
next
  case NaN
  with assms show ?thesis by (simp add: js_ge_def)
qed

lemma keep_min_div:
  assumes "js_ge v (Num MIN_VALUE)"
  shows "js_ge (js_div v (js_literal 1.1)) (Num MIN_VALUE)"
proof (cases v)
  case (Num r)
  with assms have r: "MIN_VALUE \<le> r" by (simp add: js_ge_def)
  then have r0: "0 < r" using MIN_VALUE_pos by linarith
  have c1: "1 \<le> double_1_1" using double_1_1_bounds(1) by simp
  have x: "0 < r / double_1_1" using r0 c1 by simp
  have "(2::real) powi (- 1075) = 2 powi (- 1074) / 2"
    by (simp add: power_int_minus field_simps)
  also have "\<dots> \<le> r / 2" using r by (simp add: MIN_VALUE_def)
  also have "\<dots> < r / double_1_1"
    using r0 double_1_1_bounds c1 by (intro divide_strict_left_mono) simp_all
  finally have "2 powi (- 1075) < r / double_1_1" .
  then have "MIN_VALUE \<le> nearest (r / double_1_1)"
    unfolding MIN_VALUE_def by (rule nearest_pos)
  from js_ge_round[OF x this] show ?thesis using Num by simp
next
  case PosInf
  then show ?thesis using double_1_1_bounds(1) by (simp add: js_ge_def)
next
  case NegInf
  with assms show ?thesis by (simp add: js_ge_def)
next
  case NaN
  with assms show ?thesis by (simp add: js_ge_def)
qed

lemma wheel_keeps_min:
  assumes "js_ge (model_scale_x (the_model s)) (Num MIN_VALUE)"
  shows "js_ge (model_scale_x (the_model (onWheelScroll d s))) (Num MIN_VALUE)"
proof (cases "isLocked s \<or> \<not> hasCurrentModel s")
  case True
  then show ?thesis using assms by (auto simp: onWheelScroll_def)
next
  case False
  then show ?thesis
    using keep_min_mul[OF assms] keep_min_div[OF assms] by (simp add: wheel_scale_x)
qed

lemma wheels_keep_min:
  "js_ge (model_scale_x (the_model s)) (Num MIN_VALUE) \<Longrightarrow>
   js_ge (model_scale_x (the_model (fold onWheelScroll ds s))) (Num MIN_VALUE)"
  by (induction ds arbitrary: s) (simp_all add: wheel_keeps_min)

lemma positive_scale_ge_min: "positive_scale v \<Longrightarrow> js_ge v (Num MIN_VALUE)"
  by (cases v) (auto simp: js_ge_def dest: double_ge_MIN_VALUE)

lemma ge_min_positive: "js_ge v (Num MIN_VALUE) \<Longrightarrow> js_lt (Num 0) v"
  using MIN_VALUE_pos by (cases v) (auto simp: js_ge_def)

lemma tiny_state_simps:
  "\<not> isLocked tiny_state" "hasCurrentModel tiny_state"
  "model_scale_x (the_model tiny_state) = Num MIN_VALUE"
  by (simp_all add: tiny_state_def sample_defs scale_set_def)

text \<open>
  Claim C5 says that a wheel event with a negative \<^verbatim>\<open>deltaY\<close> strictly increases the scale and
  one with a positive \<^verbatim>\<open>deltaY\<close> strictly decreases it. On doubles it need not: at the least
  positive double (about \<open>5e-324\<close>) the product with 1.1 and the quotient by 1.1 both
  round back to that double, so a wheel event in either direction leaves this positive
  scale as it is.
\<close>

theorem onWheelScroll_scale_counterexample:
  "\<not> isLocked tiny_state \<and> hasCurrentModel tiny_state \<and>
   model_scale_x (the_model tiny_state) = Num MIN_VALUE \<and> is_double MIN_VALUE \<and>
   0 < MIN_VALUE \<and>
   model_scale_x (the_model (onWheelScroll 100 tiny_state)) = Num MIN_VALUE \<and>
   \<not> js_lt (model_scale_x (the_model (onWheelScroll 100 tiny_state)))
        (model_scale_x (the_model tiny_state)) \<and>
   model_scale_x (the_model (onWheelScroll (- 100) tiny_state)) = Num MIN_VALUE \<and>
   \<not> js_lt (model_scale_x (the_model tiny_state))
        (model_scale_x (the_model (onWheelScroll (- 100) tiny_state)))"
proof -
  have down: "model_scale_x (the_model (onWheelScroll 100 tiny_state)) = Num MIN_VALUE"
    using MIN_VALUE_pos by (simp add: wheel_scale_x tiny_state_simps MIN_VALUE_stalls)
  have up: "model_scale_x (the_model (onWheelScroll (- 100) tiny_state)) = Num MIN_VALUE"
    by (simp add: wheel_scale_x tiny_state_simps MIN_VALUE_stalls)
  show ?thesis
    using tiny_state_simps is_double_MIN_VALUE MIN_VALUE_pos
    by (simp add: down up)
qed

text \<open>
  Claim C5, amended. A wheel event handled while unlocked with a model loaded writes to
  both axes the old \<^verbatim>\<open>scale.x\<close> times 1.1 when \<^verbatim>\<open>deltaY\<close> is negative and the old \<^verbatim>\<open>scale.x\<close>
  divided by 1.1 when \<^verbatim>\<open>deltaY\<close> is positive, product and quotient rounded to a double and
  1.1 being the double nearest to it. For a positive finite scale the product is not less
  than the old scale and the quotient is not more than it and still positive. From
  \<open>2 ^ - 1070\<close> (about \<open>7.9e-323\<close>) on the change is strict: the product is strictly more
  (Infinity, once it overflows) and the quotient strictly less. After every sequence of
  wheel events from a positive scale (a positive double or Infinity) the scale is strictly
  positive.
\<close>

theorem onWheelScroll_scale:
  assumes "\<not> isLocked s" and "hasCurrentModel s"
  shows "(deltaY < 0 \<longrightarrow>
            model_scale_x (the_model (onWheelScroll deltaY s)) =
              js_mul (model_scale_x (the_model s)) (js_literal 1.1) \<and>
            model_scale_y (the_model (onWheelScroll deltaY s)) =
              js_mul (model_scale_x (the_model s)) (js_literal 1.1)) \<and>
         (0 < deltaY \<longrightarrow>
            model_scale_x (the_model (onWheelScroll deltaY s)) =
              js_div (model_scale_x (the_model s)) (js_literal 1.1) \<and>
            model_scale_y (the_model (onWheelScroll deltaY s)) =
              js_div (model_scale_x (the_model s)) (js_literal 1.1)) \<and>
         (\<forall>r. model_scale_x (the_model s) = Num r \<and> is_double r \<and> 0 < r \<longrightarrow>
            (deltaY < 0 \<longrightarrow>
               js_ge (model_scale_x (the_model (onWheelScroll deltaY s))) (Num r)) \<and>
            (0 < deltaY \<longrightarrow>
               js_ge (Num r) (model_scale_x (the_model (onWheelScroll deltaY s))) \<and>
               js_lt (Num 0) (model_scale_x (the_model (onWheelScroll deltaY s))))) \<and>
         (\<forall>r. model_scale_x (the_model s) = Num r \<and> is_double r \<and> 2 powi (- 1070) \<le> r \<longrightarrow>
            (deltaY < 0 \<longrightarrow>
               js_lt (Num r) (model_scale_x (the_model (onWheelScroll deltaY s)))) \<and>
            (0 < deltaY \<longrightarrow>
               js_lt (model_scale_x (the_model (onWheelScroll deltaY s))) (Num r))) \<and>
         (\<forall>deltas. positive_scale (model_scale_x (the_model s)) \<longrightarrow>
            js_lt (Num 0) (model_scale_x (the_model (fold onWheelScroll deltas s))))"
proof -
  have seq: "\<forall>deltas. positive_scale (model_scale_x (the_model s)) \<longrightarrow>
      js_lt (Num 0) (model_scale_x (the_model (fold onWheelScroll deltas s)))"
    using wheels_keep_min ge_min_positive positive_scale_ge_min by blast
  have weak: "\<forall>r. model_scale_x (the_model s) = Num r \<and> is_double r \<and> 0 < r \<longrightarrow>
            (deltaY < 0 \<longrightarrow>
               js_ge (model_scale_x (the_model (onWheelScroll deltaY s))) (Num r)) \<and>
            (0 < deltaY \<longrightarrow>
               js_ge (Num r) (model_scale_x (the_model (onWheelScroll deltaY s))) \<and>
               js_lt (Num 0) (model_scale_x (the_model (onWheelScroll deltaY s))))"
    using assms scale_up scale_down by (simp add: wheel_scale_x del: literal_1_1)
  have strict: "\<forall>r. model_scale_x (the_model s) = Num r \<and> is_double r \<and>
            2 powi (- 1070) \<le> r \<longrightarrow>
            (deltaY < 0 \<longrightarrow>
               js_lt (Num r) (model_scale_x (the_model (onWheelScroll deltaY s)))) \<and>
            (0 < deltaY \<longrightarrow>
               js_lt (model_scale_x (the_model (onWheelScroll deltaY s))) (Num r))"
    using assms scale_up_strict scale_down_strict
    by (simp add: wheel_scale_x del: literal_1_1)
  show ?thesis
    using assms seq weak strict by (simp add: wheel_scale_x wheel_scale_y del: literal_1_1)
qed

theorem onWheelScroll_scale_witness:
  "\<not> isLocked sample_state \<and> hasCurrentModel sample_state \<and>
   model_scale_x (the_model sample_state) = Num 1 \<and> is_double 1 \<and>
   (2::real) powi (- 1070) \<le> 1 \<and> positive_scale (model_scale_x (the_model sample_state)) \<and>
   model_scale_x (the_model (onWheelScroll (- 100) sample_state)) = Num double_1_1 \<and>
   js_lt (Num 1) (model_scale_x (the_model (onWheelScroll (- 100) sample_state))) \<and>
   js_lt (model_scale_x (the_model (onWheelScroll 100 sample_state))) (Num 1) \<and>
   js_lt (Num 0) (model_scale_x (the_model (onWheelScroll 100 sample_state))) \<and>
   js_lt (Num 0)
     (model_scale_x (the_model (fold onWheelScroll [- 100, 100, 100] sample_state)))"
proof -
  have one: "(2::real) powi (- 1070) \<le> 1"
    using power_int_increasing[of "- 1070" 0 "2::real"] by simp
  have ps: "positive_scale (model_scale_x (the_model sample_state))"
    by (simp add: sample_state_simps is_double_1)
  note t = onWheelScroll_scale [OF sample_state_simps(1,2)]
  have neg: "(- 100 :: real) < 0" by simp
  have up: "model_scale_x (the_model (onWheelScroll (- 100) sample_state)) = Num double_1_1"
    using t [of "- 100"] by (simp add: sample_state_simps)
  have up_lt: "js_lt (Num 1) (model_scale_x (the_model (onWheelScroll (- 100) sample_state)))"
    using t [of "- 100"] sample_state_simps(3) is_double_1 one neg by blast
  have pos: "(0::real) < 1 \<and> (0::real) < 100" by simp
  have down_lt: "js_lt (model_scale_x (the_model (onWheelScroll 100 sample_state))) (Num 1)"
    using t [of 100] sample_state_simps(3) is_double_1 one pos by blast
  have down_pos: "js_lt (Num 0) (model_scale_x (the_model (onWheelScroll 100 sample_state)))"
    using t [of 100] sample_state_simps(3) is_double_1 pos by blast
  have seq: "js_lt (Num 0)
     (model_scale_x (the_model (fold onWheelScroll [- 100, 100, 100] sample_state)))"
    using t [of 0] ps by blast
  show ?thesis
    using sample_state_simps is_double_1 one ps up up_lt down_lt down_pos seq by blast
qed

text \<open>
  Claim C9 says that a wheel event whose \<^verbatim>\<open>deltaY\<close> is exactly 0 strictly decreases the scale
  rather than leaving it unchanged. It takes the branch that divides, but on doubles the
  quotient need not be smaller: at the least positive double (about \<open>5e-324\<close>) the quotient
  by 1.1 rounds back to that double and the scale is left unchanged.
\<close>

theorem onWheelScroll_zero_delta_counterexample:
  "\<not> isLocked tiny_state \<and> hasCurrentModel tiny_state \<and>
   model_scale_x (the_model tiny_state) = Num MIN_VALUE \<and> is_double MIN_VALUE \<and>
   0 < MIN_VALUE \<and>
   model_scale_x (the_model (onWheelScroll 0 tiny_state)) =
     model_scale_x (the_model tiny_state) \<and>
   \<not> js_lt (model_scale_x (the_model (onWheelScroll 0 tiny_state)))
        (model_scale_x (the_model tiny_state))"
proof -
  have "model_scale_x (the_model (onWheelScroll 0 tiny_state)) = Num MIN_VALUE"
    using MIN_VALUE_pos by (simp add: wheel_scale_x tiny_state_simps MIN_VALUE_stalls)
  then show ?thesis
    using tiny_state_simps is_double_MIN_VALUE MIN_VALUE_pos by simp
qed

text \<open>
  Claim C9, amended. A wheel event whose \<^verbatim>\<open>deltaY\<close> is exactly 0, handled while unlocked with
  a model loaded, takes the branch that divides: both axes get the old \<^verbatim>\<open>scale.x\<close> divided
  by 1.1, rounded to a double (1.1 being the double nearest to it). For a positive finite
  scale the quotient is not more than the old scale and still positive, and from
  \<open>2 ^ - 1070\<close> (about \<open>7.9e-323\<close>) on it is strictly less.
\<close>

theorem onWheelScroll_zero_delta:
  assumes "\<not> isLocked s" and "hasCurrentModel s"
  shows "model_scale_x (the_model (onWheelScroll 0 s)) =
           js_div (model_scale_x (the_model s)) (js_literal 1.1) \<and>
         model_scale_y (the_model (onWheelScroll 0 s)) =
           js_div (model_scale_x (the_model s)) (js_literal 1.1) \<and>
         (\<forall>r. model_scale_x (the_model s) = Num r \<and> is_double r \<and> 0 < r \<longrightarrow>
            js_ge (Num r) (model_scale_x (the_model (onWheelScroll 0 s))) \<and>
            js_lt (Num 0) (model_scale_x (the_model (onWheelScroll 0 s)))) \<and>
         (\<forall>r. model_scale_x (the_model s) = Num r \<and> is_double r \<and> 2 powi (- 1070) \<le> r \<longrightarrow>
            js_lt (model_scale_x (the_model (onWheelScroll 0 s))) (Num r))"
  using assms scale_down scale_down_strict
  by (simp add: wheel_scale_x wheel_scale_y del: literal_1_1)

theorem onWheelScroll_zero_delta_witness:
  "\<not> isLocked sample_state \<and> hasCurrentModel sample_state \<and>
   model_scale_x (the_model sample_state) = Num 1 \<and> is_double 1 \<and>
   (2::real) powi (- 1070) \<le> 1 \<and>
   js_lt (model_scale_x (the_model (onWheelScroll 0 sample_state))) (Num 1) \<and>
   js_lt (Num 0) (model_scale_x (the_model (onWheelScroll 0 sample_state)))"
proof -
  have one: "(2::real) powi (- 1070) \<le> 1"
    using power_int_increasing[of "- 1070" 0 "2::real"] by simp
  have pos: "(0::real) < 1" by simp
  note t = onWheelScroll_zero_delta [OF sample_state_simps(1,2)]
  have lt: "js_lt (model_scale_x (the_model (onWheelScroll 0 sample_state))) (Num 1)"
    using t sample_state_simps(3) is_double_1 one by blast
  have gt: "js_lt (Num 0) (model_scale_x (the_model (onWheelScroll 0 sample_state)))"
    using t sample_state_simps(3) is_double_1 pos by blast
  show ?thesis using sample_state_simps is_double_1 one lt gt by blast
qed

section \<open>Pinch zoom\<close>

lemma getTouchDistance_same [simp]: "getTouchDistance t t = 0"
  by (simp add: getTouchDistance_def)

lemma double_0_1_bounds: "0 < double_0_1" "double_0_1 < 2"
  by (simp_all add: double_0_1_def)

lemma Math_clamp_range:
  "v \<noteq> NaN \<Longrightarrow>
   js_ge (Math_max (js_literal 0.1) (Math_min (js_literal 2.0) v)) (js_literal 0.1) \<and>
   js_ge (js_literal 2.0) (Math_max (js_literal 0.1) (Math_min (js_literal 2.0) v))"
  using double_0_1_bounds by (cases v) (auto simp: Math_max_def Math_min_def js_ge_def)

text \<open>
  What the clamp of \<^verbatim>\<open>onTouchMove\<close> does achieve: whenever the product of the baseline scale
  and the ratio of the distances is a number or an infinity, the scale written lies
  between the doubles of \<^verbatim>\<open>0.1\<close> and \<^verbatim>\<open>2.0\<close>.
\<close>

lemma onTouchMove_clamped:
  assumes "\<not> isLocked s" "hasCurrentModel s" "isTouchZooming s"
    and "js_mul (initialScale s)
           (js_div (Num (getTouchDistance touch0 touch1)) (Num (initialDistance s))) \<noteq> NaN"
  shows "js_ge (model_scale_x (the_model (onTouchMove [touch0, touch1] s)))
           (js_literal 0.1) \<and>
         js_ge (js_literal 2.0)
           (model_scale_x (the_model (onTouchMove [touch0, touch1] s)))"
  using assms(1-3) Math_clamp_range[OF assms(4)]
  by (simp add: onTouchMove_def scale_set_def Let_def del: literal_0_1 literal_2 js_div.simps)

text \<open>
  Claim C2 says that the scale a two-finger move writes always lies in \<open>[0.1, 2.0]\<close>, also
  for a baseline distance of zero. The code misses one case: when the two contacts of the
  touch-start coincide (baseline distance 0) and the two contacts of the move coincide
  (current distance 0), the ratio is \<open>0 / 0\<close>, which is NaN; \<^verbatim>\<open>Math.min\<close> and \<^verbatim>\<open>Math.max\<close>
  hand NaN on, and NaN is written as the scale, whatever the baseline scale was.
\<close>

theorem onTouchMove_zero_distances_NaN:
  assumes "\<not> isLocked s" and "hasCurrentModel s"
    and "getTouchDistance a0 a1 = 0" and "getTouchDistance b0 b1 = 0"
  shows "model_scale_x (the_model (onTouchMove [b0, b1] (onTouchStart [a0, a1] s))) = NaN"
  using assms
  by (cases "model_scale_x (the_model s)")
     (simp_all add: onTouchMove_def onTouchStart_def scale_set_def Math_max_def Math_min_def)

theorem onTouchMove_zero_distances_NaN_witness:
  "\<not> isLocked sample_state \<and> hasCurrentModel sample_state \<and>
   getTouchDistance coincident_touch coincident_touch = 0 \<and>
   model_scale_x (the_model
     (onTouchMove [coincident_touch, coincident_touch]
        (onTouchStart [coincident_touch, coincident_touch] sample_state))) = NaN \<and>
   \<not> js_ge (model_scale_x (the_model
     (onTouchMove [coincident_touch, coincident_touch]
        (onTouchStart [coincident_touch, coincident_touch] sample_state)))) (Num 0.1)"
proof -
  have d: "getTouchDistance coincident_touch coincident_touch = 0" by simp
  from onTouchMove_zero_distances_NaN [OF sample_state_simps(1,2) d d]
  show ?thesis using sample_state_simps(1,2) d by (simp add: js_ge_def)
qed

section \<open>Drag\<close>

lemma onDragMove_multi:
  "multi_touch (event_touches ev) \<Longrightarrow>
   \<not> isDragging (onDragMove ev s) \<and> the_model (onDragMove ev s) = the_model s \<and>
   calls (onDragMove ev s) = calls s"
  by (simp add: onDragMove_def)

lemma onDragMove_single:
  "isDragging s \<Longrightarrow> \<not> multi_touch (event_touches ev) \<Longrightarrow>
   onDragMove ev s =
     s\<lparr>the_model := (the_model s)
          \<lparr>model_x := js_sub (Num (clientX ev)) (fst (dragStartPos s)),
           model_y := js_sub (Num (clientY ev)) (snd (dragStartPos s))\<rparr>\<rparr>"
  by (simp add: onDragMove_def)

lemma onDragMove_keeps:
  "\<not> multi_touch (event_touches ev) \<Longrightarrow>
   isDragging (onDragMove ev s) = isDragging s \<and>
   dragStartPos (onDragMove ev s) = dragStartPos s"
  by (simp add: onDragMove_def)

lemma single_moves_keep:
  "\<forall>m \<in> set moves. \<not> multi_touch (event_touches m) \<Longrightarrow>
   isDragging (fold onDragMove moves s) = isDragging s \<and>
   dragStartPos (fold onDragMove moves s) = dragStartPos s"
  by (induction moves arbitrary: s) (simp_all add: onDragMove_keeps)

lemma single_moves_last:
  assumes "\<forall>m \<in> set moves. \<not> multi_touch (event_touches m)" "isDragging s" "moves \<noteq> []"
  shows "model_x (the_model (fold onDragMove moves s)) =
           js_sub (Num (clientX (last moves))) (fst (dragStartPos s)) \<and>
         model_y (the_model (fold onDragMove moves s)) =
           js_sub (Num (clientY (last moves))) (snd (dragStartPos s))"
  using assms
proof (induction moves rule: rev_induct)
  case Nil
  then show ?case by simp
next
  case (snoc m ms)
  have "isDragging (fold onDragMove ms s)" "dragStartPos (fold onDragMove ms s) = dragStartPos s"
    using single_moves_keep[of ms s] snoc.prems by simp_all
  then show ?case using snoc.prems by (simp add: onDragMove_single)
qed

text \<open>
  Claim C7. A drag started by a press with a single contact (while unlocked), continued by
  any moves with a single contact and then interrupted by a move that reports a second
  contact: the interrupting move leaves the model where it was, ends the drag, and, when
  there was a single-contact move, the model's position is the one the last of them set
  (its pointer position minus the offset captured at the press). The other events a second
  contact raises, a touch-start and a press, do not move the model either.
\<close>

theorem drag_interrupted_position:
  assumes "\<not> isLocked s0"
    and "\<not> multi_touch (originalEvent_touches down)"
    and "\<forall>m \<in> set moves. \<not> multi_touch (event_touches m)"
    and "multi_touch (event_touches interrupt)"
  shows "the_model (onDragMove interrupt (fold onDragMove moves (on_pointerdown down s0))) =
           the_model (fold onDragMove moves (on_pointerdown down s0)) \<and>
         isDragging (fold onDragMove moves (on_pointerdown down s0)) \<and>
         \<not> isDragging (onDragMove interrupt (fold onDragMove moves (on_pointerdown down s0))) \<and>
         the_model (onTouchStart touches (fold onDragMove moves (on_pointerdown down s0))) =
           the_model (fold onDragMove moves (on_pointerdown down s0)) \<and>
         the_model (on_pointerdown down2 (fold onDragMove moves (on_pointerdown down s0))) =
           the_model (fold onDragMove moves (on_pointerdown down s0)) \<and>
         (moves \<noteq> [] \<longrightarrow>
            model_x (the_model
              (onDragMove interrupt (fold onDragMove moves (on_pointerdown down s0)))) =
              js_sub (Num (clientX (last moves)))
                (js_sub (Num (global_x down)) (model_x (the_model s0))) \<and>
            model_y (the_model
              (onDragMove interrupt (fold onDragMove moves (on_pointerdown down s0)))) =
              js_sub (Num (clientY (last moves)))
                (js_sub (Num (global_y down)) (model_y (the_model s0))))"
proof -
  let ?s1 = "on_pointerdown down s0"
  let ?s2 = "fold onDragMove moves ?s1"
  have d1: "isDragging ?s1"
    and p1: "dragStartPos ?s1 = (js_sub (Num (global_x down)) (model_x (the_model s0)),
                                 js_sub (Num (global_y down)) (model_y (the_model s0)))"
    using assms(1,2) by (simp_all add: on_pointerdown_def)
  have d2: "isDragging ?s2" using single_moves_keep[OF assms(3), of ?s1] d1 by simp
  have same: "the_model (onDragMove interrupt ?s2) = the_model ?s2"
    and off: "\<not> isDragging (onDragMove interrupt ?s2)"
    using onDragMove_multi[OF assms(4), of ?s2] by simp_all
  have last: "moves \<noteq> [] \<longrightarrow>
      model_x (the_model ?s2) = js_sub (Num (clientX (last moves))) (fst (dragStartPos ?s1)) \<and>
      model_y (the_model ?s2) = js_sub (Num (clientY (last moves))) (snd (dragStartPos ?s1))"
    using single_moves_last[OF assms(3) d1] by blast
  have ts: "the_model (onTouchStart touches ?s2) = the_model ?s2"
    by (simp add: onTouchStart_def split: list.splits)
  have pd: "the_model (on_pointerdown down2 ?s2) = the_model ?s2"
    by (simp add: on_pointerdown_def)
  show ?thesis using d2 same off last p1 ts pd by simp
qed

theorem drag_interrupted_position_witness:
  "\<not> isLocked sample_state \<and>
   \<not> multi_touch (originalEvent_touches sample_down) \<and>
   \<not> multi_touch (event_touches sample_move) \<and>
   multi_touch (event_touches sample_interrupt) \<and>
   model_x (the_model (onDragMove sample_interrupt
      (fold onDragMove [sample_move] (on_pointerdown sample_down sample_state)))) = Num 250 \<and>
   model_y (the_model (onDragMove sample_interrupt
      (fold onDragMove [sample_move] (on_pointerdown sample_down sample_state)))) = Num 340"
proof -
  have h: "\<not> isLocked sample_state" "\<not> multi_touch (originalEvent_touches sample_down)"
    "\<forall>m \<in> set [sample_move]. \<not> multi_touch (event_touches m)"
    "multi_touch (event_touches sample_interrupt)"
    by (simp_all add: sample_defs sample_event_defs multi_touch_def)
  have v: "js_sub (Num (clientX (last [sample_move])))
             (js_sub (Num (global_x sample_down)) (model_x (the_model sample_state))) = Num 250"
     "js_sub (Num (clientY (last [sample_move])))
             (js_sub (Num (global_y sample_down)) (model_y (the_model sample_state))) = Num 340"
    by (simp_all add: sample_defs sample_event_defs js_sub_def)
  have ne: "[sample_move] \<noteq> []" by simp
  note t = drag_interrupted_position [OF h]
  from t ne have x: "model_x (the_model (onDragMove sample_interrupt
      (fold onDragMove [sample_move] (on_pointerdown sample_down sample_state)))) =
      js_sub (Num (clientX (last [sample_move])))
             (js_sub (Num (global_x sample_down)) (model_x (the_model sample_state)))"
    and y: "model_y (the_model (onDragMove sample_interrupt
      (fold onDragMove [sample_move] (on_pointerdown sample_down sample_state)))) =
      js_sub (Num (clientY (last [sample_move])))
             (js_sub (Num (global_y sample_down)) (model_y (the_model sample_state)))"
    by blast+
  show ?thesis using h x y v by simp
qed

text \<open>
  Claim C3 says that the drag flag and the touch-zoom flag are never both true in a
  reachable state. They are: a press with one contact starts a drag, and a touch-start
  with two contacts then sets the touch-zoom flag while the drag flag is still set.
\<close>

theorem drag_and_zoom_flags_counterexample:
  "isDragging (run sample_env [PointerDown sample_down, TouchStart sample_touches] sample_state) \<and>
   isTouchZooming
     (run sample_env [PointerDown sample_down, TouchStart sample_touches] sample_state)"
  by (simp add: run_def dispatch_def on_pointerdown_def onTouchStart_def sample_defs
      sample_event_defs multi_touch_def)

text \<open>
  Claim C3, amended. The drag is cancelled at the first \<^verbatim>\<open>pointermove\<close> that reports more than
  one contact, not at the touch-start: after such a move the drag flag is false, so the two
  flags are not both true; a press that reports more than one contact starts no drag (it
  changes nothing); and a touch-start leaves the drag flag as it was, so that between a
  two-finger touch-start and that move both flags can be true.
\<close>

theorem drag_cancelled_at_multi_touch_move:
  "(multi_touch (event_touches ev) \<longrightarrow>
      \<not> isDragging (onDragMove ev s) \<and>
      \<not> (isDragging (onDragMove ev s) \<and> isTouchZooming (onDragMove ev s))) \<and>
   (multi_touch (originalEvent_touches down) \<longrightarrow> on_pointerdown down s = s) \<and>
   isDragging (onTouchStart touches s) = isDragging s"
  by (auto simp: onDragMove_def on_pointerdown_def onTouchStart_def split: list.splits)

theorem drag_cancelled_at_multi_touch_move_witness:
  "multi_touch (event_touches sample_interrupt) \<and>
   isDragging (run sample_env [PointerDown sample_down, TouchStart sample_touches] sample_state) \<and>
   \<not> isDragging (run sample_env
       [PointerDown sample_down, TouchStart sample_touches, PointerMove sample_interrupt]
       sample_state) \<and>
   isTouchZooming (run sample_env
       [PointerDown sample_down, TouchStart sample_touches, PointerMove sample_interrupt]
       sample_state)"
proof -
  let ?s = "run sample_env [PointerDown sample_down, TouchStart sample_touches] sample_state"
  have m: "multi_touch (event_touches sample_interrupt)"
    by (simp add: sample_interrupt_def multi_touch_def)
  have r: "run sample_env
       [PointerDown sample_down, TouchStart sample_touches, PointerMove sample_interrupt]
       sample_state = onDragMove sample_interrupt ?s"
    by (simp add: run_def dispatch_def)
  have b: "isDragging ?s" "isTouchZooming ?s"
    by (simp_all add: run_def dispatch_def on_pointerdown_def onTouchStart_def sample_defs
      sample_event_defs multi_touch_def)
  have z: "isTouchZooming (onDragMove sample_interrupt ?s)"
    using b by (simp add: onDragMove_def)
  from drag_cancelled_at_multi_touch_move [of sample_interrupt ?s] m
  have "\<not> isDragging (onDragMove sample_interrupt ?s)" by blast
  then show ?thesis using m b z r by simp
qed

section \<open>Persistence\<close>

lemma save_frame:
  "the_model (savePositionAfterInteraction e s) = the_model s"
  "timeouts (savePositionAfterInteraction e s) = timeouts s"
  "savePositionDebounceTimer (savePositionAfterInteraction e s) = savePositionDebounceTimer s"
  "last_timeout_id (savePositionAfterInteraction e s) = last_timeout_id s"
  "clock (savePositionAfterInteraction e s) = clock s"
  "isLocked (savePositionAfterInteraction e s) = isLocked s"
  "hasCurrentModel (savePositionAfterInteraction e s) = hasCurrentModel s"
  by (auto simp: savePositionAfterInteraction_def record_call_def host_call_def Let_def
      split: option.splits outcome.splits)

text \<open>
  The calls of one \<^verbatim>\<open>_savePositionAfterInteraction\<close>: its own entry, then nothing, or the
  storage call (after the host's \<^verbatim>\<open>getCurrentDisplay\<close> when the host has it), which carries
  the model's position and scale; the storage call is made when the model and its path
  are set and the transform is finite.
\<close>

lemma save_shape:
  "\<exists>tl. calls (savePositionAfterInteraction e s) = calls s @ SavePositionAfterInteraction # tl \<and>
     (tl = [] \<or>
      (\<exists>path d host. tl = host @ [SaveUserPreferences path
           (model_x (the_model s), model_y (the_model s))
           (model_scale_x (the_model s), model_scale_y (the_model s)) d] \<and>
         (host = [] \<or> host = [GetCurrentDisplay]) \<and> lastLoadedModelPath s = Some path)) \<and>
     (hasCurrentModel s \<and> truthy_string (lastLoadedModelPath s) \<and> transform_finite (the_model s)
        \<longrightarrow> tl \<noteq> [])"
  by (auto simp: savePositionAfterInteraction_def record_call_def host_call_def Let_def
      truthy_string_def transform_finite_def
      split: option.splits outcome.splits)

lemma save_storage:
  "\<exists>tl. calls (savePositionAfterInteraction e s) = calls s @ SavePositionAfterInteraction # tl \<and>
     SavePositionAfterInteraction \<notin> set tl \<and> CheckAndSwitchDisplay \<notin> set tl \<and>
     length (filter is_storage_call tl) \<le> 1"
  by (auto simp: savePositionAfterInteraction_def record_call_def host_call_def Let_def
      is_storage_call_def split: option.splits outcome.splits)

text \<open>
  Claim C6. An invocation of \<^verbatim>\<open>_savePositionAfterInteraction\<close> while a component of the
  model's position or scale is not a finite number (NaN, an infinity) changes nothing but
  the record of its own invocation: the storage collaborator is not called, the host is
  not asked for the display, and no timeout is set, so nothing retries.
\<close>

theorem save_skipped_when_not_finite:
  assumes "\<not> isFinite (model_x (the_model s)) \<or> \<not> isFinite (model_y (the_model s)) \<or>
           \<not> isFinite (model_scale_x (the_model s)) \<or>
           \<not> isFinite (model_scale_y (the_model s))"
  shows "savePositionAfterInteraction e s = s\<lparr>calls := calls s @ [SavePositionAfterInteraction]\<rparr>"
  using assms by (auto simp: savePositionAfterInteraction_def record_call_def Let_def)

theorem save_skipped_when_not_finite_witness:
  "\<not> isFinite (model_x (the_model
       (sample_state\<lparr>the_model := sample_model\<lparr>model_x := NaN, model_y := Num 0\<rparr>\<rparr>))) \<and>
   savePositionAfterInteraction sample_env
     (sample_state\<lparr>the_model := sample_model\<lparr>model_x := NaN, model_y := Num 0\<rparr>\<rparr>) =
   sample_state\<lparr>the_model := sample_model\<lparr>model_x := NaN, model_y := Num 0\<rparr>,
                calls := [SavePositionAfterInteraction]\<rparr>"
proof -
  let ?s = "sample_state\<lparr>the_model := sample_model\<lparr>model_x := NaN, model_y := Num 0\<rparr>\<rparr>"
  have h: "\<not> isFinite (model_x (the_model ?s))" by simp
  then have h': "\<not> isFinite (model_x (the_model ?s)) \<or> \<not> isFinite (model_y (the_model ?s)) \<or>
           \<not> isFinite (model_scale_x (the_model ?s)) \<or>
           \<not> isFinite (model_scale_y (the_model ?s))" by blast
  have c: "calls ?s = []" by (simp add: sample_defs)
  show ?thesis
    using save_skipped_when_not_finite [OF h', of sample_env] h c by simp
qed

section \<open>The end of a drag\<close>

text \<open>
  The two ways \<^verbatim>\<open>_checkAndSwitchDisplay\<close> ends: without a switch, having called nothing but
  the host; or with a switch, ending in its own \<^verbatim>\<open>_savePositionAfterInteraction\<close>.
\<close>

lemma check_shape:
  assumes "checkAndSwitchDisplay e s = (sw, s')"
  shows "(\<not> sw \<and> (\<exists>tl. calls s' = calls s @ CheckAndSwitchDisplay # tl \<and>
             SavePositionAfterInteraction \<notin> set tl \<and> CheckAndSwitchDisplay \<notin> set tl \<and>
             filter is_storage_call tl = [])) \<or>
         (sw \<and> (\<exists>s3 mx my. s' = savePositionAfterInteraction e s3 \<and>
             calls s3 = calls s @ [CheckAndSwitchDisplay, GetAllDisplays, GetCurrentDisplay,
               MoveWindowToDisplay mx my]))"
  using assms
  by (auto simp: checkAndSwitchDisplay_def record_call_def host_call_def Let_def
      is_storage_call_def
      split: option.splits outcome.splits if_splits)

lemma check_calls:
  assumes "checkAndSwitchDisplay e s = (sw, s')"
  shows "\<exists>tl. calls s' = calls s @ CheckAndSwitchDisplay # tl \<and>
     count_list tl SavePositionAfterInteraction = (if sw then 1 else 0) \<and>
     CheckAndSwitchDisplay \<notin> set tl \<and>
     (if sw then length (filter is_storage_call tl) \<le> 1 else filter is_storage_call tl = [])"
proof -
  from check_shape[OF assms] show ?thesis
  proof
    assume "\<not> sw \<and> (\<exists>tl. calls s' = calls s @ CheckAndSwitchDisplay # tl \<and>
             SavePositionAfterInteraction \<notin> set tl \<and> CheckAndSwitchDisplay \<notin> set tl \<and>
             filter is_storage_call tl = [])"
    then show ?thesis by (auto simp: count_list_0_iff)
  next
    assume "sw \<and> (\<exists>s3 mx my. s' = savePositionAfterInteraction e s3 \<and>
             calls s3 = calls s @ [CheckAndSwitchDisplay, GetAllDisplays, GetCurrentDisplay,
               MoveWindowToDisplay mx my])"
    then obtain s3 mx my where sw: sw and s': "s' = savePositionAfterInteraction e s3"
      and c3: "calls s3 = calls s @ [CheckAndSwitchDisplay, GetAllDisplays, GetCurrentDisplay,
               MoveWindowToDisplay mx my]" by blast
    from save_storage[of e s3] obtain tl where
      tl: "calls (savePositionAfterInteraction e s3) = calls s3 @ SavePositionAfterInteraction # tl"
        "SavePositionAfterInteraction \<notin> set tl" "CheckAndSwitchDisplay \<notin> set tl"
        "length (filter is_storage_call tl) \<le> 1" by blast
    let ?tl = "[GetAllDisplays, GetCurrentDisplay, MoveWindowToDisplay mx my] @
               SavePositionAfterInteraction # tl"
    have "calls s' = calls s @ CheckAndSwitchDisplay # ?tl"
      using s' tl(1) c3 by simp
    moreover have "count_list ?tl SavePositionAfterInteraction = 1"
      using tl(2) by (simp add: count_list_0_iff)
    moreover have "CheckAndSwitchDisplay \<notin> set ?tl"
      using tl(3) by simp
    moreover have "length (filter is_storage_call ?tl) \<le> 1"
      using tl(4) by (simp add: is_storage_call_def)
    ultimately show ?thesis using sw by (intro exI[of _ ?tl]) simp
  qed
qed

lemma sample_check:
  "checkAndSwitchDisplay sample_env
     (sample_dragged\<lparr>isDragging := False, canvas_cursor := ''grab'',
        elements := disableButtonEventPropagation (elements sample_dragged)\<rparr>) =
   (True, savePositionAfterInteraction sample_env
      (sample_state\<lparr>dragStartPos := (Num 50, Num 60), canvas_cursor := ''grab'',
         the_model := sample_model\<lparr>model_x := Num 280, model_y := Num 400\<rparr>,
         host_calls := 3,
         calls := [CheckAndSwitchDisplay, GetAllDisplays, GetCurrentDisplay,
                   MoveWindowToDisplay (Num 2200) (Num 400)]\<rparr>))"
  apply (simp add: sample_dragged_eq)
  apply (simp add: checkAndSwitchDisplay_def sample_env_def sample_host_def sample_displays_def
     sample_defs record_call_def host_call_def display_contains_def js_ge_def Let_def
     disableButtonEventPropagation_def reanchor_def js_sub_def numeral_3_eq_3)
  done

lemma sample_onDragEnd_calls:
  "calls (onDragEnd sample_env sample_dragged) =
     [CheckAndSwitchDisplay, GetAllDisplays, GetCurrentDisplay,
      MoveWindowToDisplay (Num 2200) (Num 400), SavePositionAfterInteraction,
      GetCurrentDisplay,
      SaveUserPreferences ''model.json'' (Num 280, Num 400) (Num 1, Num 1)
        (Some (Num 1920, Num 0))]"
  apply (simp add: onDragEnd_def sample_dragged_simps sample_check)
  apply (simp add: savePositionAfterInteraction_def sample_env_def sample_host_def
     sample_defs record_call_def host_call_def Let_def truthy_string_def displayInfo_of_def)
  done

lemma sample_onDragEnd_no_host:
  "calls (onDragEnd sample_no_host sample_dragged) =
     [CheckAndSwitchDisplay, SavePositionAfterInteraction,
      SaveUserPreferences ''model.json'' (Num 2200, Num 400) (Num 1, Num 1) None]"
  apply (simp add: onDragEnd_def sample_dragged_simps)
  apply (simp add: sample_dragged_eq checkAndSwitchDisplay_def savePositionAfterInteraction_def
     sample_no_host_def sample_env_def
     sample_defs record_call_def host_call_def Let_def truthy_string_def)
  done

text \<open>
  On a host whose object lacks \<^verbatim>\<open>getCurrentDisplay\<close> the relocation check ends in its
  \<^verbatim>\<open>catch\<close> after \<^verbatim>\<open>getAllDisplays\<close>, and the generic save stores the position the drag
  left, with no display.
\<close>

lemma sample_check_no_current:
  "\<not> fst (checkAndSwitchDisplay sample_no_current
          (sample_dragged\<lparr>isDragging := False, canvas_cursor := ''grab'',
             elements := disableButtonEventPropagation (elements sample_dragged)\<rparr>))"
  apply (simp add: sample_dragged_eq)
  apply (simp add: checkAndSwitchDisplay_def sample_no_current_def sample_env_def
     sample_host_def sample_displays_def sample_defs record_call_def host_call_def js_ge_def
     Let_def)
  done

lemma sample_onDragEnd_no_current:
  "calls (onDragEnd sample_no_current sample_dragged) =
     [CheckAndSwitchDisplay, GetAllDisplays, SavePositionAfterInteraction,
      SaveUserPreferences ''model.json'' (Num 2200, Num 400) (Num 1, Num 1) None]"
  apply (simp add: onDragEnd_def sample_dragged_simps)
  apply (simp add: sample_dragged_eq checkAndSwitchDisplay_def savePositionAfterInteraction_def
     sample_no_current_def sample_env_def sample_host_def sample_displays_def
     sample_defs record_call_def host_call_def js_ge_def Let_def truthy_string_def)
  done

text \<open>
  Claim C1. A drag that ends by \<^verbatim>\<open>pointerup\<close> or \<^verbatim>\<open>pointercancel\<close> (the drag flag is set when
  \<^verbatim>\<open>onDragEnd\<close> runs), with \<open>displaySwitched\<close> what the relocation check returns: the calls of
  the gesture start with the relocation check, whose calls \<open>relocation\<close> all come before
  the calls \<open>generic\<close> made after it; \<^verbatim>\<open>_savePositionAfterInteraction\<close> is invoked exactly once
  in all; the generic save after the check runs if and only if the check reported no
  switch, and the check invoked the save itself if and only if it reported a switch. The
  storage collaborator is called at most once.
\<close>

theorem onDragEnd_exactly_one_save:
  assumes "isDragging s"
    and "checkAndSwitchDisplay e
           (s\<lparr>isDragging := False, canvas_cursor := ''grab'',
              elements := disableButtonEventPropagation (elements s)\<rparr>) = (displaySwitched, s2)"
  shows "\<exists>relocation generic.
           calls s2 = calls s @ CheckAndSwitchDisplay # relocation \<and>
           calls (onDragEnd e s) = calls s2 @ generic \<and>
           count_list (CheckAndSwitchDisplay # relocation @ generic)
             SavePositionAfterInteraction = 1 \<and>
           (SavePositionAfterInteraction \<in> set generic \<longleftrightarrow> \<not> displaySwitched) \<and>
           (SavePositionAfterInteraction \<in> set relocation \<longleftrightarrow> displaySwitched) \<and>
           length (filter is_storage_call (relocation @ generic)) \<le> 1"
proof -
  from check_calls[OF assms(2)] obtain relocation where
    r: "calls s2 = calls s @ CheckAndSwitchDisplay # relocation"
       "count_list relocation SavePositionAfterInteraction = (if displaySwitched then 1 else 0)"
       "if displaySwitched then length (filter is_storage_call relocation) \<le> 1
        else filter is_storage_call relocation = []"
    by auto
  have end_eq: "onDragEnd e s =
      (if \<not> displaySwitched then savePositionAfterInteraction e s2 else s2)"
    using assms by (simp add: onDragEnd_def)
  show ?thesis
  proof (cases displaySwitched)
    case True
    have "calls (onDragEnd e s) = calls s2 @ []" using end_eq True by simp
    moreover have "SavePositionAfterInteraction \<in> set relocation"
      using r(2) True by (metis count_list_0_iff zero_neq_one)
    ultimately show ?thesis using r True by (intro exI[of _ relocation] exI[of _ "[]"]) simp
  next
    case False
    from save_storage[of e s2] obtain tl where
      tl: "calls (savePositionAfterInteraction e s2) = calls s2 @ SavePositionAfterInteraction # tl"
        "SavePositionAfterInteraction \<notin> set tl" "length (filter is_storage_call tl) \<le> 1" by blast
    have "calls (onDragEnd e s) = calls s2 @ (SavePositionAfterInteraction # tl)"
      using end_eq False tl(1) by simp
    moreover have "SavePositionAfterInteraction \<notin> set relocation"
      using r(2) False by (simp add: count_list_0_iff)
    moreover have "count_list (SavePositionAfterInteraction # tl) SavePositionAfterInteraction = 1"
      using tl(2) by (simp add: count_list_0_iff)
    moreover have
      "length (filter is_storage_call (relocation @ SavePositionAfterInteraction # tl)) \<le> 1"
      using tl(3) r(3) False by (simp add: is_storage_call_def)
    ultimately show ?thesis using r False
      by (intro exI[of _ relocation] exI[of _ "SavePositionAfterInteraction # tl"]) simp
  qed
qed

theorem onDragEnd_exactly_one_save_witness:
  "isDragging sample_dragged \<and>
   fst (checkAndSwitchDisplay sample_env
          (sample_dragged\<lparr>isDragging := False, canvas_cursor := ''grab'',
             elements := disableButtonEventPropagation (elements sample_dragged)\<rparr>)) \<and>
   calls (onDragEnd sample_env sample_dragged) =
     [CheckAndSwitchDisplay, GetAllDisplays, GetCurrentDisplay,
      MoveWindowToDisplay (Num 2200) (Num 400), SavePositionAfterInteraction,
      GetCurrentDisplay,
      SaveUserPreferences ''model.json'' (Num 280, Num 400) (Num 1, Num 1)
        (Some (Num 1920, Num 0))] \<and>
   \<not> fst (checkAndSwitchDisplay sample_no_host
          (sample_dragged\<lparr>isDragging := False, canvas_cursor := ''grab'',
             elements := disableButtonEventPropagation (elements sample_dragged)\<rparr>)) \<and>
   calls (onDragEnd sample_no_host sample_dragged) =
     [CheckAndSwitchDisplay, SavePositionAfterInteraction,
      SaveUserPreferences ''model.json'' (Num 2200, Num 400) (Num 1, Num 1) None] \<and>
   \<not> fst (checkAndSwitchDisplay sample_no_current
          (sample_dragged\<lparr>isDragging := False, canvas_cursor := ''grab'',
             elements := disableButtonEventPropagation (elements sample_dragged)\<rparr>)) \<and>
   calls (onDragEnd sample_no_current sample_dragged) =
     [CheckAndSwitchDisplay, GetAllDisplays, SavePositionAfterInteraction,
      SaveUserPreferences ''model.json'' (Num 2200, Num 400) (Num 1, Num 1) None]"
proof -
  let ?released = "sample_dragged\<lparr>isDragging := False, canvas_cursor := ''grab'',
             elements := disableButtonEventPropagation (elements sample_dragged)\<rparr>"
  have sw: "fst (checkAndSwitchDisplay sample_env ?released)"
    by (simp add: sample_check)
  have nsw: "\<not> fst (checkAndSwitchDisplay sample_no_host ?released)"
    by (simp add: checkAndSwitchDisplay_def sample_no_host_def)
  note a = onDragEnd_exactly_one_save [OF sample_dragged_simps(1), of sample_env
      "fst (checkAndSwitchDisplay sample_env ?released)"
      "snd (checkAndSwitchDisplay sample_env ?released)"]
  note b = onDragEnd_exactly_one_save [OF sample_dragged_simps(1), of sample_no_host
      "fst (checkAndSwitchDisplay sample_no_host ?released)"
      "snd (checkAndSwitchDisplay sample_no_host ?released)"]
  note c = onDragEnd_exactly_one_save [OF sample_dragged_simps(1), of sample_no_current
      "fst (checkAndSwitchDisplay sample_no_current ?released)"
      "snd (checkAndSwitchDisplay sample_no_current ?released)"]
  show ?thesis
    using a b c sw nsw sample_check_no_current sample_dragged_simps(1) sample_onDragEnd_calls
      sample_onDragEnd_no_host sample_onDragEnd_no_current
    by simp
qed

text \<open>
  Claim C10. A drag cancelled by a move that reports a second contact never settles: the
  move clears the drag flag, so \<^verbatim>\<open>onDragEnd\<close> at the following \<^verbatim>\<open>pointerup\<close> or
  \<^verbatim>\<open>pointercancel\<close> changes nothing, and over the cancelling move and the release no call
  is made at all: no relocation check and no save.
\<close>

theorem drag_cancelled_no_settle:
  assumes "isDragging s" and "multi_touch (event_touches ev)"
  shows "onDragEnd e (onDragMove ev s) = onDragMove ev s \<and>
         calls (onDragEnd e (onDragMove ev s)) = calls s"
  using assms by (simp add: onDragEnd_def onDragMove_def)

theorem drag_cancelled_no_settle_witness:
  "isDragging sample_dragged \<and> multi_touch (event_touches sample_interrupt) \<and>
   calls (onDragEnd sample_env (onDragMove sample_interrupt sample_dragged)) = [] \<and>
   \<not> isDragging (onDragEnd sample_env (onDragMove sample_interrupt sample_dragged))"
proof -
  have m: "multi_touch (event_touches sample_interrupt)"
    by (simp add: sample_interrupt_def multi_touch_def)
  from drag_cancelled_no_settle [OF sample_dragged_simps(1) m, of sample_env]
    onDragMove_multi [OF m, of sample_dragged]
  show ?thesis using sample_dragged_simps m by simp
qed

section \<open>The debounced save\<close>

lemma advance_not_due:
  assumes "timeouts s = [(i, clock s + 500)]" "dt < 500"
  shows "advance e dt s = s\<lparr>clock := clock s + dt\<rparr>"
  using assms by (simp add: advance_def)

lemma advance_due:
  assumes "timeouts s = [(i, clock s + 500)]" "500 \<le> dt"
  shows "advance e dt s =
    (savePositionAfterInteraction e (s\<lparr>timeouts := [], clock := clock s + 500\<rparr>))
      \<lparr>clock := clock s + dt\<rparr>"
  using assms by (simp add: advance_def)

lemma filter_single_slot:
  "single_slot s \<Longrightarrow> savePositionDebounceTimer s = Some t \<Longrightarrow>
   filter (\<lambda>(i, due). i \<noteq> t) (timeouts s) = []"
  by (auto simp: single_slot_def filter_empty_conv)

lemma single_slot_None:
  "single_slot s \<Longrightarrow> savePositionDebounceTimer s = None \<Longrightarrow> timeouts s = []"
  by (cases "timeouts s") (auto simp: single_slot_def)

lemma single_slot_zero:
  "single_slot s \<Longrightarrow> savePositionDebounceTimer s = Some 0 \<Longrightarrow> timeouts s = []"
  by (cases "timeouts s") (auto simp: single_slot_def)

lemma single_slot_initial: "single_slot (initial_state m path els)"
  by (simp add: single_slot_def initial_state_def)

text \<open>
  A handled wheel event cancels what was pending and leaves exactly one timeout, its own;
  it calls nothing.
\<close>

lemma wheel_arms:
  assumes "\<not> isLocked s" "hasCurrentModel s" "single_slot s"
  shows "armed (onWheelScroll d s) \<and> calls (onWheelScroll d s) = calls s \<and>
         lastLoadedModelPath (onWheelScroll d s) = lastLoadedModelPath s"
  using assms filter_single_slot[OF assms(3)] single_slot_None[OF assms(3)]
    single_slot_zero[OF assms(3)]
  by (auto simp: onWheelScroll_def debouncedSavePosition_def clearTimeout_def armed_def Let_def
      split: option.splits)

lemma armed_single_slot: "armed s \<Longrightarrow> single_slot s"
  by (simp add: armed_def single_slot_def)

lemma armed_step:
  assumes "armed s" "gap < 500"
  shows "armed (onWheelScroll d (advance e gap s)) \<and>
         calls (onWheelScroll d (advance e gap s)) = calls s \<and>
         lastLoadedModelPath (onWheelScroll d (advance e gap s)) = lastLoadedModelPath s"
proof -
  have t: "timeouts s = [(last_timeout_id s, clock s + 500)]" using assms(1) by (simp add: armed_def)
  have a: "advance e gap s = s\<lparr>clock := clock s + gap\<rparr>"
    by (rule advance_not_due[OF t assms(2)])
  have "single_slot (s\<lparr>clock := clock s + gap\<rparr>)"
    using assms(1) by (simp add: armed_def single_slot_def)
  moreover have "\<not> isLocked (s\<lparr>clock := clock s + gap\<rparr>)"
    "hasCurrentModel (s\<lparr>clock := clock s + gap\<rparr>)"
    using assms(1) by (simp_all add: armed_def)
  ultimately show ?thesis using wheel_arms[of "s\<lparr>clock := clock s + gap\<rparr>" d] a by simp
qed

lemma burst_armed:
  assumes "armed s" "\<forall>(gap, d) \<in> set later. gap < 500"
  shows "armed (fold (\<lambda>(gap, deltaY) st. onWheelScroll deltaY (advance e gap st)) later s) \<and>
         calls (fold (\<lambda>(gap, deltaY) st. onWheelScroll deltaY (advance e gap st)) later s) = calls s \<and>
         lastLoadedModelPath
           (fold (\<lambda>(gap, deltaY) st. onWheelScroll deltaY (advance e gap st)) later s) =
           lastLoadedModelPath s"
  using assms
proof (induction later arbitrary: s)
  case Nil
  then show ?case by simp
next
  case (Cons a later)
  obtain gap d where a: "a = (gap, d)" by (cases a)
  have g: "gap < 500" using Cons.prems(2) a by simp
  from armed_step[OF Cons.prems(1) g, of d e]
  have s1: "armed (onWheelScroll d (advance e gap s))"
    and c1: "calls (onWheelScroll d (advance e gap s)) = calls s"
    and p1: "lastLoadedModelPath (onWheelScroll d (advance e gap s)) = lastLoadedModelPath s"
    by simp_all
  have rest: "\<forall>(gap, d) \<in> set later. gap < 500" using Cons.prems(2) by simp
  from Cons.IH[OF s1 rest] show ?case using a c1 p1 by simp
qed

lemma check_frame:
  "timeouts (snd (checkAndSwitchDisplay e s)) = timeouts s \<and>
   savePositionDebounceTimer (snd (checkAndSwitchDisplay e s)) = savePositionDebounceTimer s"
  by (auto simp: checkAndSwitchDisplay_def record_call_def host_call_def Let_def save_frame
      split: option.splits outcome.splits)

lemma single_slot_cong:
  "timeouts s' = timeouts s \<Longrightarrow> savePositionDebounceTimer s' = savePositionDebounceTimer s \<Longrightarrow>
   single_slot s' = single_slot s"
  by (simp add: single_slot_def)

lemma single_slot_save: "single_slot (savePositionAfterInteraction e s) = single_slot s"
  by (rule single_slot_cong) (simp_all add: save_frame)

lemma single_slot_onDragEnd: "single_slot s \<Longrightarrow> single_slot (onDragEnd e s)"
proof (cases "isDragging s")
  case False
  assume "single_slot s"
  with False show ?thesis by (simp add: onDragEnd_def)
next
  case True
  assume ss: "single_slot s"
  let ?s1 = "s\<lparr>isDragging := False, canvas_cursor := ''grab'',
              elements := disableButtonEventPropagation (elements s)\<rparr>"
  obtain sw s2 where c: "checkAndSwitchDisplay e ?s1 = (sw, s2)" by (cases "checkAndSwitchDisplay e ?s1")
  have "single_slot ?s1" using ss by (simp add: single_slot_def)
  moreover have "single_slot s2 = single_slot ?s1"
    using check_frame[of e ?s1] c by (intro single_slot_cong) simp_all
  ultimately have "single_slot s2" by simp
  then show ?thesis using True c by (simp add: onDragEnd_def single_slot_save)
qed

lemma single_slot_wheel: "single_slot s \<Longrightarrow> single_slot (onWheelScroll d s)"
proof (cases "isLocked s \<or> \<not> hasCurrentModel s")
  case True
  assume "single_slot s"
  with True show ?thesis by (auto simp: onWheelScroll_def)
next
  case False
  assume "single_slot s"
  with False wheel_arms[of s d] show ?thesis by (simp add: armed_single_slot)
qed

lemma fold_save_frame:
  "timeouts (fold (\<lambda>(i, d) st. savePositionAfterInteraction e (st\<lparr>clock := d\<rparr>)) due s) = timeouts s \<and>
   savePositionDebounceTimer
     (fold (\<lambda>(i, d) st. savePositionAfterInteraction e (st\<lparr>clock := d\<rparr>)) due s) =
     savePositionDebounceTimer s"
  by (induction due arbitrary: s) (auto simp: save_frame)

lemma single_slot_advance: "single_slot s \<Longrightarrow> single_slot (advance e dt s)"
  using fold_save_frame[of e "filter (\<lambda>(i, d). d \<le> clock s + dt) (timeouts s)"
      "s\<lparr>timeouts := filter (\<lambda>(i, d). \<not> d \<le> clock s + dt) (timeouts s)\<rparr>"]
  by (auto simp: advance_def Let_def single_slot_def)

lemma single_slot_dispatch: "single_slot s \<Longrightarrow> single_slot (dispatch e ev s)"
proof (cases ev)
  case (PointerDown d)
  assume "single_slot s"
  then show ?thesis using PointerDown
    by (simp add: dispatch_def on_pointerdown_def single_slot_def)
next
  case (PointerMove m)
  assume "single_slot s"
  then show ?thesis using PointerMove
    by (simp add: dispatch_def onDragMove_def single_slot_def)
next
  case PointerUp
  assume "single_slot s"
  then show ?thesis using PointerUp by (simp add: dispatch_def single_slot_onDragEnd)
next
  case (WheelScroll d)
  assume "single_slot s"
  then show ?thesis using WheelScroll by (simp add: dispatch_def single_slot_wheel)
next
  case (TouchStart ts)
  assume "single_slot s"
  then show ?thesis using TouchStart
    by (auto simp: dispatch_def onTouchStart_def single_slot_def split: list.splits)
next
  case (TouchMove ts)
  assume "single_slot s"
  then show ?thesis using TouchMove
    by (auto simp: dispatch_def onTouchMove_def single_slot_def Let_def split: list.splits)
next
  case (TouchEnd ts)
  assume ss: "single_slot s"
  have "single_slot ((savePositionAfterInteraction e s)\<lparr>isTouchZooming := False\<rparr>)"
    using ss single_slot_save[of e s] by (simp add: single_slot_def)
  moreover have "single_slot (s\<lparr>isTouchZooming := False\<rparr>)" using ss by (simp add: single_slot_def)
  ultimately show ?thesis using TouchEnd ss by (simp add: dispatch_def onTouchEnd_def)
next
  case (Elapse dt)
  assume "single_slot s"
  then show ?thesis using Elapse by (simp add: dispatch_def single_slot_advance)
qed

lemma single_slot_run: "single_slot s \<Longrightarrow> single_slot (run e evs s)"
  unfolding run_def by (induction evs arbitrary: s) (simp_all add: single_slot_dispatch)

text \<open>The invariant holds in every state the event loop reaches from the initial one.\<close>

lemma single_slot_reachable: "single_slot (run e evs (initial_state m path els))"
  by (rule single_slot_run[OF single_slot_initial])

lemma sample_burst_calls:
  "calls (advance sample_env 500
            (wheel_burst sample_env (- 100) [(100, 100), (499, - 100)] sample_state)) =
     [SavePositionAfterInteraction, GetCurrentDisplay,
      SaveUserPreferences ''model.json'' (Num 100, Num 200) (Num double_1_1, Num double_1_1)
        (Some (Num 0, Num 0))]"
  apply (simp add: wheel_burst_def sample_defs onWheelScroll_def debouncedSavePosition_def
      clearTimeout_def scale_set_def advance_def Let_def)
  apply (simp add: savePositionAfterInteraction_def sample_env_def sample_host_def
     record_call_def host_call_def Let_def truthy_string_def displayInfo_of_def)
  done

text \<open>
  Claim C8. A burst of wheel events, handled while unlocked with a model loaded, in which
  each event follows the one before by less than 500 ms, started where every pending
  timeout is the one the manager holds: during the burst nothing is called, and at its end
  exactly one timeout is pending, set by the last event (each event cancelled the one
  before); while less than 500 ms pass after the last event still nothing is called; once
  500 ms or more have passed, \<^verbatim>\<open>_savePositionAfterInteraction\<close> has been invoked exactly
  once, no timeout is pending, and the storage call it makes (it makes one when the
  model's path is set and the transform is finite) carries the position and the scale of
  the model as the last wheel event of the burst left it.
\<close>

theorem wheel_burst_one_save:
  assumes "\<not> isLocked s" and "hasCurrentModel s" and "single_slot s"
    and "\<forall>(gap, deltaY) \<in> set later. gap < 500"
    and "500 \<le> dt"
  shows "calls (wheel_burst e deltaY0 later s) = calls s \<and>
         timeouts (wheel_burst e deltaY0 later s) =
           [(last_timeout_id (wheel_burst e deltaY0 later s),
             clock (wheel_burst e deltaY0 later s) + 500)] \<and>
         (\<forall>dt' < 500. calls (advance e dt' (wheel_burst e deltaY0 later s)) = calls s) \<and>
         timeouts (advance e dt (wheel_burst e deltaY0 later s)) = [] \<and>
         the_model (advance e dt (wheel_burst e deltaY0 later s)) =
           the_model (wheel_burst e deltaY0 later s) \<and>
         (\<exists>tl. calls (advance e dt (wheel_burst e deltaY0 later s)) =
                  calls s @ SavePositionAfterInteraction # tl \<and>
               SavePositionAfterInteraction \<notin> set tl \<and>
               (tl = [] \<or>
                (\<exists>path d host. tl = host @ [SaveUserPreferences path
                    (model_x (the_model (wheel_burst e deltaY0 later s)),
                     model_y (the_model (wheel_burst e deltaY0 later s)))
                    (model_scale_x (the_model (wheel_burst e deltaY0 later s)),
                     model_scale_y (the_model (wheel_burst e deltaY0 later s))) d] \<and>
                  (host = [] \<or> host = [GetCurrentDisplay]))) \<and>
               (truthy_string (lastLoadedModelPath s) \<and>
                transform_finite (the_model (wheel_burst e deltaY0 later s)) \<longrightarrow> tl \<noteq> []))"
proof -
  let ?b = "wheel_burst e deltaY0 later s"
  from wheel_arms[OF assms(1-3), of deltaY0]
  have a0: "armed (onWheelScroll deltaY0 s)" and c0: "calls (onWheelScroll deltaY0 s) = calls s"
    and p0: "lastLoadedModelPath (onWheelScroll deltaY0 s) = lastLoadedModelPath s"
    by simp_all
  from burst_armed[OF a0 assms(4), of e]
  have ab: "armed ?b" and cb: "calls ?b = calls s"
    and pb: "lastLoadedModelPath ?b = lastLoadedModelPath s"
    using c0 p0 by (simp_all add: wheel_burst_def)
  have tb: "timeouts ?b = [(last_timeout_id ?b, clock ?b + 500)]"
    using ab by (simp add: armed_def)
  let ?f = "?b\<lparr>timeouts := [], clock := clock ?b + 500\<rparr>"
  have adv: "advance e dt ?b = (savePositionAfterInteraction e ?f)\<lparr>clock := clock ?b + dt\<rparr>"
    by (rule advance_due[OF tb assms(5)])
  have quiet: "\<forall>dt' < 500. calls (advance e dt' ?b) = calls s"
    using advance_not_due[OF tb] cb by simp
  have path: "lastLoadedModelPath ?f = lastLoadedModelPath s"
    using pb by simp
  from save_shape[of e ?f] obtain tl where
    tl: "calls (savePositionAfterInteraction e ?f) = calls ?f @ SavePositionAfterInteraction # tl"
      "tl = [] \<or>
      (\<exists>path d host. tl = host @ [SaveUserPreferences path
           (model_x (the_model ?f), model_y (the_model ?f))
           (model_scale_x (the_model ?f), model_scale_y (the_model ?f)) d] \<and>
         (host = [] \<or> host = [GetCurrentDisplay]) \<and> lastLoadedModelPath ?f = Some path)"
      "hasCurrentModel ?f \<and> truthy_string (lastLoadedModelPath ?f) \<and>
         transform_finite (the_model ?f) \<longrightarrow> tl \<noteq> []"
    by blast
  have nosave: "SavePositionAfterInteraction \<notin> set tl" using tl(2) by auto
  have hm: "hasCurrentModel ?f" using ab by (simp add: armed_def)
  have shape: "tl = [] \<or>
      (\<exists>path d host. tl = host @ [SaveUserPreferences path
           (model_x (the_model ?b), model_y (the_model ?b))
           (model_scale_x (the_model ?b), model_scale_y (the_model ?b)) d] \<and>
         (host = [] \<or> host = [GetCurrentDisplay]))"
    using tl(2) by auto
  have valid: "truthy_string (lastLoadedModelPath s) \<and> transform_finite (the_model ?b)
      \<longrightarrow> tl \<noteq> []"
    using tl(3) hm path by simp
  have c: "calls (advance e dt ?b) = calls s @ SavePositionAfterInteraction # tl"
    using adv tl(1) cb by simp
  have t: "timeouts (advance e dt ?b) = []" using adv by (simp add: save_frame)
  have m: "the_model (advance e dt ?b) = the_model ?b" using adv by (simp add: save_frame)
  show ?thesis using cb tb quiet t m c nosave shape valid by blast
qed

theorem wheel_burst_one_save_witness:
  "\<not> isLocked sample_state \<and> hasCurrentModel sample_state \<and> single_slot sample_state \<and>
   (100::nat) < 500 \<and> (499::nat) < 500 \<and> (500::nat) \<le> 500 \<and>
   calls (wheel_burst sample_env (- 100) [(100, 100), (499, - 100)] sample_state) = [] \<and>
   calls (advance sample_env 500
            (wheel_burst sample_env (- 100) [(100, 100), (499, - 100)] sample_state)) =
     [SavePositionAfterInteraction, GetCurrentDisplay,
      SaveUserPreferences ''model.json'' (Num 100, Num 200) (Num double_1_1, Num double_1_1)
        (Some (Num 0, Num 0))]"
proof -
  have h: "\<not> isLocked sample_state" "hasCurrentModel sample_state" "single_slot sample_state"
    "\<forall>(gap, deltaY) \<in> set [(100, 100), (499, - 100 :: real)]. gap < (500::nat)"
    "(500::nat) \<le> 500"
    by (simp_all add: sample_defs single_slot_def)
  have c: "calls sample_state = []" by (simp add: sample_defs)
  from wheel_burst_one_save [OF h, of sample_env "- 100"] c
  have "calls (wheel_burst sample_env (- 100) [(100, 100), (499, - 100)] sample_state) = []"
    by simp
  then show ?thesis using h(1-3) sample_burst_calls by simp
qed

section \<open>Proximity\<close>






end
